theory Spec2Isabelle
  imports Main "HOL-Library.Word" "HOL-Library.Sublist" "HOL-Library.Code_Target_Numeral"
begin

unbundle bit_operations_syntax

section \<open>Data model (fw/hal.h, fw/main.cpp)\<close>

type_synonym u8 = "8 word"
type_synonym u16 = "16 word"
type_synonym u32 = "32 word"
type_synonym u64 = "64 word"

text \<open>\<^verbatim>\<open>touch_event_t\<close>: type is 0 = touch down, 1 = touch move, 2 = touch up.\<close>

record touch_event_t =
  touch_x :: u16
  touch_y :: u16
  touch_type :: u8
  touch_timestamp :: u64

text \<open>
  \<^verbatim>\<open>nfc_tag_t\<close>. The arrays \<^verbatim>\<open>uid[7]\<close> and \<^verbatim>\<open>ndef[512]\<close> are represented by the
  bytes that were copied into them; the rest of each array is never read.
\<close>

record nfc_tag_t =
  tag_uid :: "u8 list"
  tag_uid_length :: u8
  tag_ndef :: "u8 list"
  tag_ndef_length :: u16
  tag_timestamp :: u64

text \<open>
  \<^verbatim>\<open>ritual_behavior_t\<close> is a C enum; \<^verbatim>\<open>set_ritual_config\<close> casts any int to it, so the
  field holds an integer and the enumerators are constants.
\<close>

definition RITUAL_SAVE_MOMENT :: int where "RITUAL_SAVE_MOMENT = 0"
definition RITUAL_SEND_TIP :: int where "RITUAL_SEND_TIP = 1"
definition RITUAL_VOTE_A :: int where "RITUAL_VOTE_A = 2"
definition RITUAL_VOTE_B :: int where "RITUAL_VOTE_B = 3"
definition RITUAL_UNLOCK_CONTENT :: int where "RITUAL_UNLOCK_CONTENT = 4"
definition RITUAL_TRIGGER_LIGHT :: int where "RITUAL_TRIGGER_LIGHT = 5"
definition RITUAL_PLAY_SOUND :: int where "RITUAL_PLAY_SOUND = 6"
definition RITUAL_INCREMENT_COUNTER :: int where "RITUAL_INCREMENT_COUNTER = 7"
definition RITUAL_CUSTOM :: int where "RITUAL_CUSTOM = 8"

text \<open>
  \<^verbatim>\<open>ritual_config_t\<close>. The char arrays are C strings. \<^verbatim>\<open>tip_amount\<close> is a \<^verbatim>\<open>float\<close>,
  held here as its 32 bits in the IEEE 754 single format: bit 31 is the sign, bits 30 to
  23 the exponent, bits 22 to 0 the fraction.
\<close>

record ritual_config_t =
  node_id :: string
  label :: string
  behavior :: int
  tip_amount :: u32
  vote_option :: string
  counter_name :: string
  light_pattern :: string
  sound_file :: string

text \<open>What the host side (JavaScript) is asked to do, in call order.\<close>

datatype js_call =
    JsDisplayClear
  | JsDisplaySetPixel u16 u16 bool
  | JsDisplayDrawText u16 u16 string u8
  | JsDisplayUpdate bool
  | JsLedSet bool
  | JsBuzzerTone u16 u16
  | JsStorageSave string "u8 list"
  | JsStorageDelete string
  | JsNfcWriteTag "u8 list"
  | JsDebugPrint string

text \<open>
  What the host event loop runs while the firmware has yielded: the exported callbacks
  of sim/hal-wasm.cpp and the two timer callbacks that \<^verbatim>\<open>led_blink\<close> schedules.
\<close>

datatype host_event =
    WasmTouchEvent u16 u16 u8 u64
  | WasmNfcTag "u8 list" u8 "u8 list" u16
  | WasmNfcTagRemoved
  | LedOnTimer int
  | LedOffTimer

text \<open>
  The whole node: the globals of sim/hal-wasm.cpp, the globals of fw/main.cpp, and the
  host. \<open>clock\<close> is the host's time in ms; \<open>pending\<close> are the host events still to come,
  each with the time it is due, in due order; \<open>storage\<close> is the host's key-value store;
  \<open>save_script\<close> are the outcomes of the coming \<^verbatim>\<open>js_storage_save\<close> calls (success once
  the script is used up); \<open>trace\<close> are the calls made to the host so far.
\<close>

record node =
  touch_queue :: "touch_event_t list"
  nfc_queue :: "nfc_tag_t list"
  display_initialized :: bool
  nfc_initialized :: bool
  touch_initialized :: bool
  current_ritual :: ritual_config_t
  ritual_initialized :: bool
  last_nfc_check :: u64
  last_uid :: string
  last_touch_time :: u64
  clock :: nat
  pending :: "(nat \<times> host_event) list"
  storage :: "string \<rightharpoonup> u8 list"
  save_script :: "bool list"
  trace :: "js_call list"

section \<open>The host side\<close>

text \<open>
  Modelled from the spec: the \<^verbatim>\<open>js_*\<close> functions are declared \<^verbatim>\<open>extern\<close> in
  sim/hal-wasm.cpp and implemented by the JavaScript harness, which is not part of the
  sources. Each output call is recorded in the trace. The store is a flat key-value
  namespace: a save that succeeds replaces the value, a load of an absent key yields
  length 0, and a load right after a save of the same key observes the new value.
\<close>

definition js_call :: "js_call \<Rightarrow> node \<Rightarrow> node" where
  "js_call c s = s\<lparr>trace := trace s @ [c]\<rparr>"

definition js_system_millis :: "node \<Rightarrow> u64" where
  "js_system_millis s = of_nat (clock s)"

definition js_storage_save :: "string \<Rightarrow> u8 list \<Rightarrow> node \<Rightarrow> bool \<times> node" where
  "js_storage_save key data s =
     (let ok = (case save_script s of [] \<Rightarrow> True | b # _ \<Rightarrow> b);
          s = js_call (JsStorageSave key data) (s\<lparr>save_script := tl (save_script s)\<rparr>)
      in (ok, if ok then s\<lparr>storage := (storage s)(key \<mapsto> data)\<rparr> else s))"

definition js_storage_load :: "string \<Rightarrow> u16 \<Rightarrow> node \<Rightarrow> u16 \<times> u8 list" where
  "js_storage_load key max_length s =
     (case storage s key of
        None \<Rightarrow> (0, [])
      | Some d \<Rightarrow> (of_nat (min (length d) (unat max_length)), take (unat max_length) d))"

definition js_storage_delete :: "string \<Rightarrow> node \<Rightarrow> bool \<times> node" where
  "js_storage_delete key s =
     (storage s key \<noteq> None, js_call (JsStorageDelete key) (s\<lparr>storage := (storage s)(key := None)\<rparr>))"

section \<open>The simulation backend (sim/hal-wasm.cpp)\<close>

text \<open>
  Pointer arguments are never null in fw/main.cpp (addresses of locals and string
  literals), so the null checks of the backend are not branches of the model. An out
  buffer is returned as the list of bytes written to it.
\<close>

definition system_millis :: "node \<Rightarrow> u64" where
  "system_millis s = js_system_millis s"

definition debug_print :: "string \<Rightarrow> node \<Rightarrow> node" where
  "debug_print message s = js_call (JsDebugPrint message) s"

text \<open>\<^verbatim>\<open>debug_printf\<close> formats into a 512-byte buffer; the caller passes the formatted text.\<close>

definition debug_printf :: "string \<Rightarrow> node \<Rightarrow> node" where
  "debug_printf buffer s = debug_print (take 511 buffer) s"

definition display_init :: "node \<Rightarrow> node" where
  "display_init s =
     (let s = s\<lparr>display_initialized := True\<rparr>;
          s = js_call JsDisplayClear s
      in debug_print ''Display initialized (WebAssembly)'' s)"

definition display_clear :: "node \<Rightarrow> node" where
  "display_clear s = (if \<not> display_initialized s then s else js_call JsDisplayClear s)"

definition DISPLAY_WIDTH :: u16 where "DISPLAY_WIDTH = 296"
definition DISPLAY_HEIGHT :: u16 where "DISPLAY_HEIGHT = 296"

definition display_set_pixel :: "u16 \<Rightarrow> u16 \<Rightarrow> bool \<Rightarrow> node \<Rightarrow> node" where
  "display_set_pixel x y black s =
     (if \<not> display_initialized s then s
      else if x \<ge> DISPLAY_WIDTH \<or> y \<ge> DISPLAY_HEIGHT then s
      else js_call (JsDisplaySetPixel x y black) s)"

definition display_draw_text :: "u16 \<Rightarrow> u16 \<Rightarrow> string \<Rightarrow> u8 \<Rightarrow> node \<Rightarrow> node" where
  "display_draw_text x y txt sz s =
     (if \<not> display_initialized s then s else js_call (JsDisplayDrawText x y txt sz) s)"

definition display_update :: "bool \<Rightarrow> node \<Rightarrow> node" where
  "display_update partial s =
     (if \<not> display_initialized s then s else js_call (JsDisplayUpdate partial) s)"

definition nfc_init :: "node \<Rightarrow> node" where
  "nfc_init s = debug_print ''NFC initialized (WebAssembly)'' (s\<lparr>nfc_initialized := True\<rparr>)"

definition nfc_tag_present :: "node \<Rightarrow> bool" where
  "nfc_tag_present s = (nfc_queue s \<noteq> [])"

text \<open>
  \<^verbatim>\<open>nfc_get_uid\<close> and \<^verbatim>\<open>nfc_read_ndef\<close> look at the front of the queue and copy from it;
  they return the length, the bytes copied out, and the node as they leave it.
\<close>

definition nfc_get_uid :: "node \<Rightarrow> (int \<times> u8 list) \<times> node" where
  "nfc_get_uid s =
     (if \<not> nfc_initialized s \<or> nfc_queue s = [] then ((0, []), s)
      else (let tag = hd (nfc_queue s)
            in ((uint (tag_uid_length tag), take (unat (tag_uid_length tag)) (tag_uid tag)), s)))"

definition nfc_read_ndef :: "node \<Rightarrow> (int \<times> u8 list) \<times> node" where
  "nfc_read_ndef s =
     (if \<not> nfc_initialized s \<or> nfc_queue s = [] then ((0, []), s)
      else (let tag = hd (nfc_queue s)
            in ((uint (tag_ndef_length tag), take (unat (tag_ndef_length tag)) (tag_ndef tag)), s)))"

definition nfc_write_ndef :: "u8 list \<Rightarrow> int \<Rightarrow> node \<Rightarrow> bool \<times> node" where
  "nfc_write_ndef buf len s =
     (if \<not> nfc_initialized s \<or> len \<le> 0 then (False, s)
      else (True, js_call (JsNfcWriteTag (take (nat len) buf)) s))"

definition touch_init :: "node \<Rightarrow> node" where
  "touch_init s = debug_print ''Touch initialized (WebAssembly)'' (s\<lparr>touch_initialized := True\<rparr>)"

text \<open>\<^verbatim>\<open>touch_read\<close>: \<open>None\<close> is the return value false; \<open>Some e\<close> is true with \<open>*out = e\<close>.\<close>

definition touch_read :: "node \<Rightarrow> touch_event_t option \<times> node" where
  "touch_read s =
     (if \<not> touch_initialized s \<or> touch_queue s = [] then (None, s)
      else (Some (hd (touch_queue s)), s\<lparr>touch_queue := tl (touch_queue s)\<rparr>))"

definition led_set :: "bool \<Rightarrow> node \<Rightarrow> node" where
  "led_set on s = js_call (JsLedSet on) s"

definition buzzer_tone :: "u16 \<Rightarrow> u16 \<Rightarrow> node \<Rightarrow> node" where
  "buzzer_tone frequency duration s = js_call (JsBuzzerTone frequency duration) s"

definition storage_save :: "string \<Rightarrow> u8 list \<Rightarrow> u16 \<Rightarrow> node \<Rightarrow> bool \<times> node" where
  "storage_save key data len s =
     (if len = 0 then (False, s) else js_storage_save key (take (unat len) data) s)"

definition storage_load :: "string \<Rightarrow> u16 \<Rightarrow> node \<Rightarrow> u16 \<times> u8 list" where
  "storage_load key max_length s =
     (if max_length = 0 then (0, []) else js_storage_load key max_length s)"

definition storage_delete :: "string \<Rightarrow> node \<Rightarrow> bool \<times> node" where
  "storage_delete key s = js_storage_delete key s"

subsection \<open>Callbacks the host calls\<close>

text \<open>The loop \<^verbatim>\<open>while (touch_queue.size() > 10) touch_queue.pop();\<close>\<close>

function limit_queue :: "'a list \<Rightarrow> 'a list" where
  "limit_queue q = (if length q > 10 then limit_queue (tl q) else q)"
  by pat_completeness auto
termination
  by (relation "measure length") auto

declare limit_queue.simps [simp del]

definition wasm_touch_event :: "u16 \<Rightarrow> u16 \<Rightarrow> u8 \<Rightarrow> u64 \<Rightarrow> node \<Rightarrow> node" where
  "wasm_touch_event x y type timestamp s =
     (if \<not> touch_initialized s then s
      else (let event = \<lparr>touch_x = x, touch_y = y, touch_type = type, touch_timestamp = timestamp\<rparr>;
                s = s\<lparr>touch_queue := touch_queue s @ [event]\<rparr>
            in s\<lparr>touch_queue := limit_queue (touch_queue s)\<rparr>))"

text \<open>The loop \<^verbatim>\<open>while (!nfc_queue.empty()) nfc_queue.pop();\<close>\<close>

fun clear_queue :: "'a list \<Rightarrow> 'a list" where
  "clear_queue [] = []"
| "clear_queue (t # q) = clear_queue q"

text \<open>
  \<^verbatim>\<open>wasm_nfc_tag\<close>: \<open>uid\<close> and \<open>ndef\<close> are the host's buffers, which hold at least
  \<open>uid_length\<close> and \<open>ndef_length\<close> bytes; \<^verbatim>\<open>memcpy\<close> copies the clamped number of bytes.
\<close>

definition wasm_nfc_tag :: "u8 list \<Rightarrow> u8 \<Rightarrow> u8 list \<Rightarrow> u16 \<Rightarrow> node \<Rightarrow> node" where
  "wasm_nfc_tag uid uid_length ndef ndef_length s =
     (if \<not> nfc_initialized s then s
      else (let ul = (if uid_length < 7 then uid_length else 7);
                nl = (if ndef_length < 512 then ndef_length else 512);
                tag = \<lparr>tag_uid = take (unat ul) uid, tag_uid_length = ul,
                       tag_ndef = take (unat nl) ndef, tag_ndef_length = nl,
                       tag_timestamp = system_millis s\<rparr>;
                s = s\<lparr>nfc_queue := clear_queue (nfc_queue s)\<rparr>
            in s\<lparr>nfc_queue := nfc_queue s @ [tag]\<rparr>))"

definition wasm_nfc_tag_removed :: "node \<Rightarrow> node" where
  "wasm_nfc_tag_removed s = s\<lparr>nfc_queue := clear_queue (nfc_queue s)\<rparr>"

subsection \<open>Yielding to the host\<close>

text \<open>
  Modelled from the spec: \<^verbatim>\<open>emscripten_async_call\<close> and \<^verbatim>\<open>emscripten_sleep\<close> belong to the
  host runtime. A delay on this backend yields to the host loop, which goes on delivering
  touch and tag events and runs the timers that fall due; the firmware resumes when the
  delay has passed. Time passes only while the firmware has yielded.
\<close>

fun schedule :: "nat \<times> host_event \<Rightarrow> (nat \<times> host_event) list \<Rightarrow> (nat \<times> host_event) list" where
  "schedule e [] = [e]"
| "schedule e (p # ps) = (if fst e < fst p then e # p # ps else p # schedule e ps)"

definition emscripten_async_call :: "host_event \<Rightarrow> int \<Rightarrow> node \<Rightarrow> node" where
  "emscripten_async_call func millis s =
     s\<lparr>pending := schedule (clock s + nat millis, func) (pending s)\<rparr>"

text \<open>
  One callback of the host loop. The two timers are the lambdas of \<^verbatim>\<open>led_blink\<close>: the outer
  one switches the LED on and schedules the inner one, which switches it off.
\<close>

fun run_callback :: "host_event \<Rightarrow> node \<Rightarrow> node" where
  "run_callback (WasmTouchEvent x y type timestamp) s = wasm_touch_event x y type timestamp s"
| "run_callback (WasmNfcTag uid uid_length ndef ndef_length) s =
     wasm_nfc_tag uid uid_length ndef ndef_length s"
| "run_callback WasmNfcTagRemoved s = wasm_nfc_tag_removed s"
| "run_callback (LedOnTimer delay) s =
     emscripten_async_call LedOffTimer delay (js_call (JsLedSet True) s)"
| "run_callback LedOffTimer s = js_call (JsLedSet False) s"

fun callback_weight :: "nat \<times> host_event \<Rightarrow> nat" where
  "callback_weight (due, LedOnTimer delay) = 2"
| "callback_weight (due, ev) = 1"

definition pending_weight :: "node \<Rightarrow> nat" where
  "pending_weight s = sum_list (map callback_weight (pending s))"

lemma sum_weight_schedule:
  "sum_list (map callback_weight (schedule e ps)) = callback_weight e + sum_list (map callback_weight ps)"
  by (induction ps) auto

lemma pending_weight_run_callback:
  "pending_weight (run_callback ev s) < callback_weight (due, ev) + pending_weight s"
  by (cases ev)
     (auto simp: pending_weight_def wasm_touch_event_def wasm_nfc_tag_def wasm_nfc_tag_removed_def
        emscripten_async_call_def js_call_def sum_weight_schedule Let_def)

function host_event_loop :: "nat \<Rightarrow> node \<Rightarrow> node" where
  "host_event_loop until s =
     (case pending s of
        [] \<Rightarrow> s
      | (due, ev) # rest \<Rightarrow>
          if due \<le> until
          then host_event_loop until
                 (run_callback ev (s\<lparr>pending := rest, clock := max (clock s) due\<rparr>))
          else s)"
  by pat_completeness auto
termination
proof (relation "measure (\<lambda>(until, s). pending_weight s)")
  show "wf (measure (\<lambda>(until, s). pending_weight s))" by simp
next
  fix until :: nat and s :: node and x21 x22 due ev
  assume p: "pending s = x21 # x22" and x: "(due, ev) = x21"
  have "pending_weight (run_callback ev (s\<lparr>pending := x22, clock := max (clock s) due\<rparr>))
          < callback_weight (due, ev) + pending_weight (s\<lparr>pending := x22, clock := max (clock s) due\<rparr>)"
    by (rule pending_weight_run_callback)
  also have "\<dots> = pending_weight s"
    using p x by (simp add: pending_weight_def)
  finally show "((until, run_callback ev (s\<lparr>pending := x22, clock := max (clock s) due\<rparr>)), until, s)
                  \<in> measure (\<lambda>(until, s). pending_weight s)"
    by simp
qed

declare host_event_loop.simps [simp del]

definition emscripten_sleep :: "u32 \<Rightarrow> node \<Rightarrow> node" where
  "emscripten_sleep ms s =
     (let until = clock s + unat ms;
          s = host_event_loop until s
      in s\<lparr>clock := until\<rparr>)"

definition system_delay :: "u32 \<Rightarrow> node \<Rightarrow> node" where
  "system_delay ms s = emscripten_sleep ms s"

text \<open>The loop of \<^verbatim>\<open>led_blink\<close>, from \<open>i\<close> on: one outer timer per blink.\<close>

function led_blink_from :: "int \<Rightarrow> int \<Rightarrow> int \<Rightarrow> node \<Rightarrow> node" where
  "led_blink_from i ntimes delay_ms s =
     (if i < ntimes
      then led_blink_from (i + 1) ntimes delay_ms
             (emscripten_async_call (LedOnTimer delay_ms) (i * delay_ms * 2) s)
      else s)"
  by pat_completeness auto
termination
  by (relation "measure (\<lambda>(i, ntimes, delay_ms, s). nat (ntimes - i))") auto

declare led_blink_from.simps [simp del]

definition led_blink :: "int \<Rightarrow> int \<Rightarrow> node \<Rightarrow> node" where
  "led_blink ntimes delay_ms s = led_blink_from 0 ntimes delay_ms s"

definition buzzer_success :: "node \<Rightarrow> node" where
  "buzzer_success s =
     (let s = buzzer_tone 1000 100 s;
          s = system_delay 120 s;
          s = buzzer_tone 1200 100 s;
          s = system_delay 120 s
      in buzzer_tone 1400 150 s)"

definition buzzer_error :: "node \<Rightarrow> node" where
  "buzzer_error s =
     (let s = buzzer_tone 400 300 s;
          s = system_delay 350 s
      in buzzer_tone 300 300 s)"

section \<open>The firmware (fw/main.cpp)\<close>

subsection \<open>Formatting\<close>

text \<open>
  The conversions of \<^verbatim>\<open>sprintf\<close> that the firmware uses: \<^verbatim>\<open>%llu\<close>, \<^verbatim>\<open>%lu\<close> and \<^verbatim>\<open>%d\<close> on
  unsigned values (\<open>fmt_u\<close>), \<^verbatim>\<open>%02X\<close> on a byte (\<open>fmt_02X\<close>), \<^verbatim>\<open>%.2f\<close> on a float
  (\<open>fmt_2f\<close>). The destination buffers are large enough for the texts built here as long
  as the configured strings fit their own arrays.
\<close>

definition digit_char :: "nat \<Rightarrow> char" where
  "digit_char d = ''0123456789ABCDEF'' ! d"

function fmt_u :: "nat \<Rightarrow> string" where
  "fmt_u n = (if n < 10 then [digit_char n] else fmt_u (n div 10) @ [digit_char (n mod 10)])"
  by pat_completeness auto
termination
  by (relation "measure id") auto

declare fmt_u.simps [simp del]

definition fmt_02X :: "u8 \<Rightarrow> string" where
  "fmt_02X b = [digit_char (unat b div 16), digit_char (unat b mod 16)]"

text \<open>
  \<^verbatim>\<open>%.2f\<close> prints the sign, then \<^verbatim>\<open>inf\<close> or \<^verbatim>\<open>nan\<close> when the exponent is 255, and else the
  exact value of the float rounded to hundredths, a tie going to the even neighbour. The
  value is \<open>fraction * 2^-149\<close> when the exponent \<open>e\<close> is 0 and
  \<open>(2^23 + fraction) * 2^(e - 150)\<close> otherwise; \<open>round_half_even n d\<close> is \<open>n / d\<close> rounded.
\<close>

definition round_half_even :: "nat \<Rightarrow> nat \<Rightarrow> nat" where
  "round_half_even n d =
     (let q = n div d; r = n mod d
      in if 2 * r < d \<or> (2 * r = d \<and> even q) then q else q + 1)"

definition fmt_2f :: "u32 \<Rightarrow> string" where
  "fmt_2f x =
     (let e = unat (take_bit 8 (drop_bit 23 x));
          fraction = unat (take_bit 23 x);
          h = (if e = 0 then round_half_even (100 * fraction) (2 ^ 149)
               else if e < 150 then round_half_even (100 * (2 ^ 23 + fraction)) (2 ^ (150 - e))
               else 100 * (2 ^ 23 + fraction) * 2 ^ (e - 150))
      in (if bit x 31 then ''-'' else []) @
         (if e = 255 then (if fraction = 0 then ''inf'' else ''nan'')
          else fmt_u (h div 100) @ ''.'' @
               [digit_char (h mod 100 div 10), digit_char (h mod 10)]))"

text \<open>A C string seen as bytes: \<^verbatim>\<open>(uint8_t*)text\<close> with \<^verbatim>\<open>strlen(text)\<close>.\<close>

definition bytes_of :: "string \<Rightarrow> u8 list" where
  "bytes_of txt = map of_char txt"

definition strlen :: "string \<Rightarrow> u16" where
  "strlen txt = of_nat (length txt)"

text \<open>The four \<^verbatim>\<open>sprintf\<close> calls that build the persisted records.\<close>

definition fmt_moment_data :: "string \<Rightarrow> string \<Rightarrow> u64 \<Rightarrow> string" where
  "fmt_moment_data uid_str node millis =
     ''{\"uid\":\"'' @ uid_str @ ''\",\"node\":\"'' @ node @
     ''\",\"timestamp\":'' @ fmt_u (unat millis) @ '',\"verified\":true}''"

definition fmt_tip_data :: "string \<Rightarrow> u32 \<Rightarrow> string \<Rightarrow> u64 \<Rightarrow> string" where
  "fmt_tip_data uid_str amount node millis =
     ''{\"uid\":\"'' @ uid_str @ ''\",\"amount\":'' @ fmt_2f amount @ '',\"node\":\"'' @ node @
     ''\",\"timestamp\":'' @ fmt_u (unat millis) @ ''}''"

definition fmt_vote_data :: "string \<Rightarrow> string \<Rightarrow> string \<Rightarrow> string \<Rightarrow> u64 \<Rightarrow> string" where
  "fmt_vote_data uid_str option vote node millis =
     ''{\"uid\":\"'' @ uid_str @ ''\",\"option\":\"'' @ option @ ''\",\"vote_option\":\"'' @ vote @
     ''\",\"node\":\"'' @ node @ ''\",\"timestamp\":'' @ fmt_u (unat millis) @ ''}''"

definition fmt_unlock_data :: "string \<Rightarrow> string \<Rightarrow> string \<Rightarrow> u64 \<Rightarrow> string" where
  "fmt_unlock_data uid_str content node millis =
     ''{\"uid\":\"'' @ uid_str @ ''\",\"content_id\":\"'' @ content @ ''\",\"node\":\"'' @ node @
     ''\",\"timestamp\":'' @ fmt_u (unat millis) @ ''}''"

subsection \<open>Utility functions\<close>

text \<open>
  \<^verbatim>\<open>uid_to_string\<close>: the loop writes two hex digits per byte for the first \<open>length\<close>
  bytes, then the terminator.
\<close>

fun uid_to_string_from :: "u8 list \<Rightarrow> nat \<Rightarrow> string" where
  "uid_to_string_from uid 0 = []"
| "uid_to_string_from [] (Suc n) = []"
| "uid_to_string_from (b # uid) (Suc n) = fmt_02X b @ uid_to_string_from uid n"

definition uid_to_string :: "u8 list \<Rightarrow> u8 \<Rightarrow> string" where
  "uid_to_string uid len = uid_to_string_from uid (unat len)"

definition show_status_message :: "string \<Rightarrow> node \<Rightarrow> node" where
  "show_status_message message s =
     (let s = display_clear s;
          s = display_draw_text 10 10 ''MELD Node'' 2 s;
          s = display_draw_text 10 50 (label (current_ritual s)) 1 s;
          s = display_draw_text 10 80 ''Status:'' 1 s;
          s = display_draw_text 10 100 message 1 s
      in display_update True s)"

definition show_ready_screen :: "node \<Rightarrow> node" where
  "show_ready_screen s =
     (let s = display_clear s;
          s = display_draw_text 50 50 ''MELD Node'' 3 s;
          s = display_draw_text 30 120 (label (current_ritual s)) 2 s;
          s = display_draw_text 10 180 ''Tap NFC tag to activate'' 1 s;
          s = display_draw_text 10 200 ''Touch screen for menu'' 1 s
      in display_update False s)"

subsection \<open>Ritual behaviors\<close>

definition execute_save_moment :: "string \<Rightarrow> node \<Rightarrow> node" where
  "execute_save_moment uid_str s =
     (let s = debug_printf (''Saving moment for UID: '' @ uid_str) s;
          s = show_status_message ''Saving moment...'' s;
          s = led_blink 3 200 s;
          s = buzzer_success s;
          moment_data = fmt_moment_data uid_str (node_id (current_ritual s)) (system_millis s);
          key = ''moment_'' @ fmt_u (unat (system_millis s));
          s = snd (storage_save key (bytes_of moment_data) (strlen moment_data) s);
          s = show_status_message ''Moment saved!'' s;
          s = system_delay 2000 s
      in show_ready_screen s)"

definition execute_send_tip :: "string \<Rightarrow> node \<Rightarrow> node" where
  "execute_send_tip uid_str s =
     (let s = debug_printf (''Sending tip: $'' @ fmt_2f (tip_amount (current_ritual s)) @
                            '' for UID: '' @ uid_str) s;
          s = show_status_message ''Sending tip...'' s;
          s = led_blink 5 100 s;
          s = buzzer_tone 800 100 s;
          s = system_delay 120 s;
          s = buzzer_tone 1000 100 s;
          s = system_delay 120 s;
          s = buzzer_tone 1200 150 s;
          tip_data = fmt_tip_data uid_str (tip_amount (current_ritual s)) (node_id (current_ritual s))
                       (system_millis s);
          key = ''tip_'' @ fmt_u (unat (system_millis s));
          s = snd (storage_save key (bytes_of tip_data) (strlen tip_data) s);
          msg = ''Tip sent: $'' @ fmt_2f (tip_amount (current_ritual s));
          s = show_status_message msg s;
          s = system_delay 2000 s
      in show_ready_screen s)"

definition execute_vote :: "string \<Rightarrow> bool \<Rightarrow> node \<Rightarrow> node" where
  "execute_vote uid_str option_a s =
     (let option = (if option_a then ''A'' else ''B'');
          s = debug_printf (''Voting '' @ option @ '': '' @ vote_option (current_ritual s) @
                            '' for UID: '' @ uid_str) s;
          msg = ''Voting '' @ option @ ''...'';
          s = show_status_message msg s;
          s = (if option_a
               then (let s = led_set True s;
                         s = buzzer_tone 1000 500 s
                     in led_set False s)
               else (let s = led_blink 2 250 s;
                         s = buzzer_tone 800 300 s;
                         s = system_delay 100 s
                     in buzzer_tone 600 300 s));
          vote_data = fmt_vote_data uid_str option (vote_option (current_ritual s))
                        (node_id (current_ritual s)) (system_millis s);
          key = ''vote_'' @ fmt_u (unat (system_millis s));
          s = snd (storage_save key (bytes_of vote_data) (strlen vote_data) s);
          msg = ''Vote '' @ option @ '' recorded'';
          s = show_status_message msg s;
          s = system_delay 2000 s
      in show_ready_screen s)"

text \<open>
  The counter buffer \<^verbatim>\<open>count_data[4] = {0}\<close> after \<^verbatim>\<open>storage_load\<close> has written the loaded
  bytes over its start.
\<close>

definition load_into :: "u8 list \<Rightarrow> u8 list \<Rightarrow> u8 list" where
  "load_into buf loaded = loaded @ drop (length loaded) buf"

text \<open>
  The two conversions of \<^verbatim>\<open>execute_increment_counter\<close>: the shifts and ors that read
  \<^verbatim>\<open>current_count\<close> from the four bytes, and the shifts and masks that write it back.
\<close>

definition count_of_bytes :: "u8 list \<Rightarrow> u32" where
  "count_of_bytes count_data =
     push_bit 24 (ucast (count_data ! 0)) OR push_bit 16 (ucast (count_data ! 1)) OR
     push_bit 8 (ucast (count_data ! 2)) OR ucast (count_data ! 3)"

definition bytes_of_count :: "u32 \<Rightarrow> u8 list" where
  "bytes_of_count current_count =
     [ucast (drop_bit 24 current_count AND 0xFF), ucast (drop_bit 16 current_count AND 0xFF),
      ucast (drop_bit 8 current_count AND 0xFF), ucast (current_count AND 0xFF)]"

definition execute_increment_counter :: "string \<Rightarrow> node \<Rightarrow> node" where
  "execute_increment_counter uid_str s =
     (let s = debug_printf (''Incrementing counter: '' @ counter_name (current_ritual s) @
                            '' for UID: '' @ uid_str) s;
          s = show_status_message ''Updating counter...'' s;
          count_data = load_into [0, 0, 0, 0] (snd (storage_load (counter_name (current_ritual s)) 4 s));
          current_count = count_of_bytes count_data;
          current_count = current_count + 1;
          count_data = bytes_of_count current_count;
          s = snd (storage_save (counter_name (current_ritual s)) count_data 4 s);
          s = led_blink (uint (current_count mod 10)) 150 s;
          s = buzzer_tone (ucast (1000 + current_count mod 500)) 200 s;
          msg = counter_name (current_ritual s) @ '': '' @ fmt_u (unat current_count);
          s = show_status_message msg s;
          s = system_delay 2000 s
      in show_ready_screen s)"

text \<open>The two \<^verbatim>\<open>for\<close> loops of \<^verbatim>\<open>execute_trigger_light\<close>, from \<open>i\<close> on.\<close>

function rainbow_from :: "int \<Rightarrow> node \<Rightarrow> node" where
  "rainbow_from i s =
     (if i < 10
      then rainbow_from (i + 1)
             (let s = led_set True s;
                  s = buzzer_tone (of_int (500 + i * 100)) 100 s;
                  s = system_delay 100 s;
                  s = led_set False s
              in system_delay 50 s)
      else s)"
  by pat_completeness auto
termination
  by (relation "measure (\<lambda>(i, s). nat (10 - i))") auto

declare rainbow_from.simps [simp del]

function pulse_from :: "int \<Rightarrow> node \<Rightarrow> node" where
  "pulse_from i s =
     (if i < 5
      then pulse_from (i + 1)
             (let s = led_set True s;
                  s = system_delay 50 s;
                  s = led_set False s
              in system_delay 50 s)
      else s)"
  by pat_completeness auto
termination
  by (relation "measure (\<lambda>(i, s). nat (5 - i))") auto

declare pulse_from.simps [simp del]

definition execute_trigger_light :: "string \<Rightarrow> node \<Rightarrow> node" where
  "execute_trigger_light uid_str s =
     (let s = debug_printf (''Triggering light pattern: '' @ light_pattern (current_ritual s) @
                            '' for UID: '' @ uid_str) s;
          s = show_status_message ''Light show!'' s;
          s = (if light_pattern (current_ritual s) = ''rainbow'' then rainbow_from 0 s
               else if light_pattern (current_ritual s) = ''pulse'' then pulse_from 0 s
               else led_blink 10 100 s);
          s = show_status_message ''Light show complete'' s;
          s = system_delay 1000 s
      in show_ready_screen s)"

definition execute_unlock_content :: "string \<Rightarrow> node \<Rightarrow> node" where
  "execute_unlock_content uid_str s =
     (let s = debug_printf (''Unlocking content for UID: '' @ uid_str) s;
          s = show_status_message ''Unlocking content...'' s;
          s = led_set True s;
          s = buzzer_success s;
          s = system_delay 2000 s;
          s = led_set False s;
          unlock_data = fmt_unlock_data uid_str (node_id (current_ritual s)) (node_id (current_ritual s))
                          (system_millis s);
          key = ''unlock_'' @ fmt_u (unat (system_millis s));
          s = snd (storage_save key (bytes_of unlock_data) (strlen unlock_data) s);
          s = show_status_message ''Content unlocked!'' s;
          s = system_delay 2000 s
      in show_ready_screen s)"

subsection \<open>Main ritual execution\<close>

definition execute_ritual_behavior :: "string \<Rightarrow> node \<Rightarrow> node" where
  "execute_ritual_behavior uid_str s =
     (if behavior (current_ritual s) = RITUAL_SAVE_MOMENT then execute_save_moment uid_str s
      else if behavior (current_ritual s) = RITUAL_SEND_TIP then execute_send_tip uid_str s
      else if behavior (current_ritual s) = RITUAL_VOTE_A then execute_vote uid_str True s
      else if behavior (current_ritual s) = RITUAL_VOTE_B then execute_vote uid_str False s
      else if behavior (current_ritual s) = RITUAL_INCREMENT_COUNTER then execute_increment_counter uid_str s
      else if behavior (current_ritual s) = RITUAL_TRIGGER_LIGHT then execute_trigger_light uid_str s
      else if behavior (current_ritual s) = RITUAL_UNLOCK_CONTENT then execute_unlock_content uid_str s
      else (let s = show_status_message ''Unknown behavior'' s;
                s = system_delay 1000 s
            in show_ready_screen s))"

subsection \<open>Touch menu\<close>

definition show_menu :: "node \<Rightarrow> node" where
  "show_menu s =
     (let s = display_clear s;
          s = display_draw_text 10 10 ''MELD Node Menu'' 2 s;
          s = display_draw_text 10 50 ''1. View Stats'' 1 s;
          s = display_draw_text 10 70 ''2. Clear Data'' 1 s;
          s = display_draw_text 10 90 ''3. Test NFC'' 1 s;
          s = display_draw_text 10 110 ''4. Node Info'' 1 s;
          s = display_draw_text 10 250 ''Touch to exit'' 1 s
      in display_update True s)"

text \<open>
  Two waits of the firmware have no bound: the menu and the Node Info screen each wait
  for a touch-down, however long that takes. They run on fuel, one unit per round.
  \<open>Returned s\<close> is a call that returns, leaving the node as \<open>s\<close>; \<open>Waiting s\<close> is a call
  that is still inside such a wait when the fuel is used up, the node being as \<open>s\<close>.
\<close>

datatype outcome = Waiting (state_of: node) | Returned (state_of: node)

text \<open>
  The wait of the Node Info screen, \<^verbatim>\<open>while (!touch_read(&touch) || touch.type != 0)\<close>,
  ends only when a touch-down is read. One unit of fuel per test of the condition.
\<close>

fun node_info_wait :: "nat \<Rightarrow> node \<Rightarrow> outcome" where
  "node_info_wait 0 s = Waiting s"
| "node_info_wait (Suc fuel) s =
     (case touch_read s of
        (None, s) \<Rightarrow> node_info_wait fuel (system_delay 10 s)
      | (Some touch, s) \<Rightarrow>
          if touch_type touch \<noteq> 0 then node_info_wait fuel (system_delay 10 s) else Returned s)"

definition handle_touch_menu :: "nat \<Rightarrow> u16 \<Rightarrow> u16 \<Rightarrow> node \<Rightarrow> outcome" where
  "handle_touch_menu fuel x y s =
     (if y \<ge> 50 \<and> y < 70 then
        (let s = show_status_message ''Feature coming soon'' s;
             s = system_delay 1000 s
         in Returned (show_ready_screen s))
      else if y \<ge> 70 \<and> y < 90 then
        (let s = show_status_message ''Data cleared'' s;
             s = system_delay 1000 s
         in Returned (show_ready_screen s))
      else if y \<ge> 90 \<and> y < 110 then
        (let s = show_status_message ''Tap NFC tag to test'' s;
             s = system_delay 3000 s
         in Returned (show_ready_screen s))
      else if y \<ge> 110 \<and> y < 130 then
        (let s = display_clear s;
             s = display_draw_text 10 10 ''Node Information'' 2 s;
             s = display_draw_text 10 50 ''ID:'' 1 s;
             s = display_draw_text 40 50 (node_id (current_ritual s)) 1 s;
             s = display_draw_text 10 70 ''Label:'' 1 s;
             s = display_draw_text 60 70 (label (current_ritual s)) 1 s;
             s = display_draw_text 10 250 ''Touch to continue'' 1 s;
             s = display_update True s
         in (case node_info_wait fuel s of
               Waiting s \<Rightarrow> Waiting s
             | Returned s \<Rightarrow> Returned (show_ready_screen s)))
      else Returned (show_ready_screen s))"

subsection \<open>Main loop\<close>

text \<open>\<^verbatim>\<open>setup\<close>. The default tip amount \<^verbatim>\<open>5.0f\<close> is the float with the bits \<open>0x40A00000\<close>.\<close>

definition setup_fw :: "node \<Rightarrow> node" where
  "setup_fw s =
     (let s = debug_print ''MELD Node starting...'' s;
          s = display_init s;
          s = nfc_init s;
          s = touch_init s;
          s = s\<lparr>current_ritual := (current_ritual s)\<lparr>node_id := ''default-node''\<rparr>\<rparr>;
          s = s\<lparr>current_ritual := (current_ritual s)\<lparr>label := ''Default Ritual''\<rparr>\<rparr>;
          s = s\<lparr>current_ritual := (current_ritual s)\<lparr>behavior := RITUAL_SAVE_MOMENT\<rparr>\<rparr>;
          s = s\<lparr>current_ritual := (current_ritual s)\<lparr>tip_amount := 0x40A00000\<rparr>\<rparr>;
          s = s\<lparr>current_ritual := (current_ritual s)\<lparr>vote_option := ''Option A''\<rparr>\<rparr>;
          s = s\<lparr>current_ritual := (current_ritual s)\<lparr>counter_name := ''default_counter''\<rparr>\<rparr>;
          s = s\<lparr>current_ritual := (current_ritual s)\<lparr>light_pattern := ''rainbow''\<rparr>\<rparr>;
          s = s\<lparr>current_ritual := (current_ritual s)\<lparr>sound_file := ''beep.wav''\<rparr>\<rparr>;
          s = s\<lparr>ritual_initialized := True\<rparr>;
          s = show_ready_screen s
      in debug_print ''MELD Node ready!'' s)"

text \<open>
  The tag part of \<^verbatim>\<open>loop\<close>: the body of \<^verbatim>\<open>if (now - last_nfc_check > 100)\<close>. The two
  strings are compared as \<^verbatim>\<open>strcmp\<close> does; \<^verbatim>\<open>last_uid[0] = '\0'\<close> makes \<open>last_uid\<close> empty.
\<close>

definition nfc_check :: "u64 \<Rightarrow> node \<Rightarrow> node" where
  "nfc_check now s =
     (let s = s\<lparr>last_nfc_check := now\<rparr>
      in if nfc_tag_present s then
           (let ((uid_length, uid), s) = nfc_get_uid s
            in if uid_length > 0 then
                 (let uid_str = uid_to_string uid (of_int uid_length)
                  in if uid_str \<noteq> last_uid s then
                       (let s = s\<lparr>last_uid := uid_str\<rparr>;
                            s = debug_printf (''NFC tag detected: '' @ uid_str) s
                        in execute_ritual_behavior uid_str s)
                     else s)
               else s)
         else s\<lparr>last_uid := []\<rparr>)"

lemma clock_host_event_loop:
  "clock s \<le> clock (host_event_loop until s) \<and> clock (host_event_loop until s) \<le> max (clock s) until"
proof (induction until s rule: host_event_loop.induct)
  case (1 until s)
  show ?case
  proof (cases "pending s")
    case Nil
    then show ?thesis by (simp add: host_event_loop.simps [of until s])
  next
    case (Cons p rest)
    obtain due ev where p: "p = (due, ev)" by (cases p)
    have c: "clock (run_callback ev t) = clock t" for t
      by (cases ev)
         (simp_all add: wasm_touch_event_def wasm_nfc_tag_def wasm_nfc_tag_removed_def
            emscripten_async_call_def js_call_def Let_def)
    show ?thesis
    proof (cases "due \<le> until")
      case True
      from "1.IH" [OF Cons p [symmetric] True] c
      show ?thesis using Cons p True
        by (simp add: host_event_loop.simps [of until s]) linarith
    next
      case False
      then show ?thesis using Cons p by (simp add: host_event_loop.simps [of until s])
    qed
  qed
qed

lemma clock_system_delay: "clock (system_delay ms s) = clock s + unat ms"
  by (simp add: system_delay_def emscripten_sleep_def Let_def)

lemma clock_touch_read: "clock (snd (touch_read s)) = clock s"
  by (simp add: touch_read_def)

lemma long_press_elapsed:
  fixes now touch_start :: u64
  assumes "now - touch_start < 1000"
  shows "unat (now + 10 - touch_start) = unat (now - touch_start) + 10"
proof -
  have "unat (now - touch_start) < 1000"
    using assms by (simp add: word_less_nat_alt)
  then have a: "unat (now - touch_start + 10) = unat (now - touch_start) + 10"
    by (simp add: unat_word_ariths)
  have e: "now + 10 - touch_start = now - touch_start + 10" by simp
  show ?thesis unfolding e by (rule a)
qed

lemma long_press_wait_decreases:
  assumes lt: "system_millis s - touch_start < 1000"
    and x: "(r, s') = touch_read (system_delay 10 s)"
  shows "((touch_start, s'), touch_start, s)
           \<in> measure (\<lambda>(touch_start, s). 1000 - unat (system_millis s - touch_start))"
proof -
  have "s' = snd (touch_read (system_delay 10 s))"
    using x by (metis snd_conv)
  then have "clock s' = clock s + 10"
    by (simp add: clock_touch_read clock_system_delay)
  then have m: "system_millis s' = system_millis s + 10"
    by (simp add: system_millis_def js_system_millis_def)
  have "unat (system_millis s - touch_start) < 1000"
    using lt by (simp add: word_less_nat_alt)
  with long_press_elapsed [OF lt] m show ?thesis by simp
qed

text \<open>
  The long-press wait, \<^verbatim>\<open>while (still_touching && (system_millis() - touch_start < 1000))\<close>;
  the result is \<open>still_touching\<close> when the loop ends.
\<close>

function long_press_wait :: "u64 \<Rightarrow> node \<Rightarrow> bool \<times> node" where
  "long_press_wait touch_start s =
     (if system_millis s - touch_start < 1000 then
        (case touch_read (system_delay 10 s) of
           (None, s') \<Rightarrow> long_press_wait touch_start s'
         | (Some check_touch, s') \<Rightarrow>
             if touch_type check_touch = 2 then (False, s') else long_press_wait touch_start s')
      else (True, s))"
  by pat_completeness auto
termination
proof (relation "measure (\<lambda>(touch_start, s). 1000 - unat (system_millis s - touch_start))")
  show "wf (measure (\<lambda>(touch_start, s). 1000 - unat (system_millis s - touch_start)))" by simp
next
  fix touch_start :: u64 and s :: node and x :: "touch_event_t option" and y :: node
  assume "system_millis s - touch_start < 1000" and "(x, y) = touch_read (system_delay 10 s)"
  then show "((touch_start, y), touch_start, s)
          \<in> measure (\<lambda>(touch_start, s). 1000 - unat (system_millis s - touch_start))"
    by (rule long_press_wait_decreases)
next
  fix touch_start :: u64 and s :: node and x :: "touch_event_t option" and y :: node
  assume "system_millis s - touch_start < 1000" and "(x, y) = touch_read (system_delay 10 s)"
  then show "((touch_start, y), touch_start, s)
          \<in> measure (\<lambda>(touch_start, s). 1000 - unat (system_millis s - touch_start))"
    by (rule long_press_wait_decreases)
qed

declare long_press_wait.simps [simp del]

text \<open>
  The wait for the menu selection, \<^verbatim>\<open>while (true)\<close>, ends only when a touch-down is
  read. It runs on fuel, one unit per round, shared with \<open>handle_touch_menu\<close>.
\<close>

fun menu_wait :: "nat \<Rightarrow> node \<Rightarrow> outcome" where
  "menu_wait 0 s = Waiting s"
| "menu_wait (Suc fuel) s =
     (case touch_read s of
        (None, s) \<Rightarrow> menu_wait fuel (system_delay 10 s)
      | (Some touch, s) \<Rightarrow>
          if touch_type touch = 0 then handle_touch_menu fuel (touch_x touch) (touch_y touch) s
          else menu_wait fuel (system_delay 10 s))"

text \<open>The touch part of \<^verbatim>\<open>loop\<close>, from \<^verbatim>\<open>touch_read(&touch)\<close> on.\<close>

definition touch_check :: "nat \<Rightarrow> u64 \<Rightarrow> node \<Rightarrow> outcome" where
  "touch_check fuel now s =
     (case touch_read s of
        (None, s) \<Rightarrow> Returned s
      | (Some touch, s) \<Rightarrow>
          if touch_type touch = 0 then
            (if now - last_touch_time s > 500 then
               (let s = s\<lparr>last_touch_time := now\<rparr>;
                    s = debug_printf (''Touch at ('' @ fmt_u (unat (touch_x touch)) @ '', '' @
                                      fmt_u (unat (touch_y touch)) @ '')'') s;
                    (still_touching, s) = long_press_wait now s
                in if still_touching then menu_wait fuel (show_menu s) else Returned s)
             else Returned s)
          else Returned s)"

text \<open>
  One call of \<^verbatim>\<open>loop\<close>. \<open>Waiting s\<close> is a call that is still inside one of its two
  unbounded waits when the fuel is used up.
\<close>

definition loop :: "nat \<Rightarrow> node \<Rightarrow> outcome" where
  "loop fuel s =
     (let now = system_millis s;
          s = (if now - last_nfc_check s > 100 then nfc_check now s else s)
      in case touch_check fuel now s of
           Waiting s \<Rightarrow> Waiting s
         | Returned s \<Rightarrow> Returned (system_delay 10 s))"

text \<open>
  \<open>n\<close> calls of \<^verbatim>\<open>loop\<close> in a row, as \<^verbatim>\<open>app_main\<close> and the host's frame callback make
  them; a call that does not return is the last one.
\<close>

fun loops :: "nat \<Rightarrow> nat \<Rightarrow> node \<Rightarrow> outcome" where
  "loops fuel 0 s = Returned s"
| "loops fuel (Suc n) s =
     (case loop fuel s of Waiting s \<Rightarrow> Waiting s | Returned s \<Rightarrow> loops fuel n s)"

text \<open>
  The configuration setter exported to the host. \<^verbatim>\<open>strcpy\<close> has no bound: a string that
  does not fit its array of 32 or 64 chars, the terminator included, is written past
  the end of the field, which C leaves undefined. Such a call is the value
  \<open>Inl WritesPastArray\<close>.
\<close>

datatype fault = WritesPastArray

definition set_ritual_config ::
  "string \<Rightarrow> string \<Rightarrow> int \<Rightarrow> u32 \<Rightarrow> string \<Rightarrow> string \<Rightarrow> string \<Rightarrow> node \<Rightarrow> fault + node" where
  "set_ritual_config node_id' label' behavior' tip_amount' vote_option' counter_name' light_pattern' s =
     (if 32 \<le> length node_id' \<or> 64 \<le> length label' \<or> 64 \<le> length vote_option' \<or>
         32 \<le> length counter_name' \<or> 32 \<le> length light_pattern'
      then Inl WritesPastArray
      else Inr
     (let s = s\<lparr>current_ritual := (current_ritual s)\<lparr>node_id := node_id'\<rparr>\<rparr>;
          s = s\<lparr>current_ritual := (current_ritual s)\<lparr>label := label'\<rparr>\<rparr>;
          s = s\<lparr>current_ritual := (current_ritual s)\<lparr>behavior := behavior'\<rparr>\<rparr>;
          s = s\<lparr>current_ritual := (current_ritual s)\<lparr>tip_amount := tip_amount'\<rparr>\<rparr>;
          s = s\<lparr>current_ritual := (current_ritual s)\<lparr>vote_option := vote_option'\<rparr>\<rparr>;
          s = s\<lparr>current_ritual := (current_ritual s)\<lparr>counter_name := counter_name'\<rparr>\<rparr>;
          s = s\<lparr>current_ritual := (current_ritual s)\<lparr>light_pattern := light_pattern'\<rparr>\<rparr>
      in if ritual_initialized s then show_ready_screen s else s))"

text \<open>
  The node at power-on: the static initial values of both translation units (empty
  queues, flags false, times 0, empty strings), on a host whose clock reads \<open>t\<close>, that
  will deliver \<open>script\<close>, whose store is empty and whose saves will go as \<open>saves\<close>.
\<close>

definition power_on :: "nat \<Rightarrow> (nat \<times> host_event) list \<Rightarrow> bool list \<Rightarrow> node" where
  "power_on t script saves =
     \<lparr>touch_queue = [], nfc_queue = [],
      display_initialized = False, nfc_initialized = False, touch_initialized = False,
      current_ritual = \<lparr>node_id = [], label = [], behavior = 0, tip_amount = 0, vote_option = [],
                         counter_name = [], light_pattern = [], sound_file = []\<rparr>,
      ritual_initialized = False, last_nfc_check = 0, last_uid = [], last_touch_time = 0,
      clock = t, pending = script, storage = Map.empty, save_script = saves, trace = []\<rparr>"

section \<open>Sequences of backend operations\<close>

text \<open>
  What can happen to the backend's queues: the host runs a callback, or the firmware
  polls through one of the read functions, or one of the init functions runs.
\<close>

datatype hal_op =
    Callback host_event
  | TouchRead
  | NfcTagPresent
  | NfcGetUid
  | NfcReadNdef
  | TouchInit
  | NfcInit

fun hal_step :: "hal_op \<Rightarrow> node \<Rightarrow> node" where
  "hal_step (Callback ev) s = run_callback ev s"
| "hal_step TouchRead s = snd (touch_read s)"
| "hal_step NfcTagPresent s = s"
| "hal_step NfcGetUid s = snd (nfc_get_uid s)"
| "hal_step NfcReadNdef s = snd (nfc_read_ndef s)"
| "hal_step TouchInit s = touch_init s"
| "hal_step NfcInit s = nfc_init s"

text \<open>The operations that replace or remove the queued tag.\<close>

fun changes_tag :: "hal_op \<Rightarrow> bool" where
  "changes_tag (Callback (WasmNfcTag uid uid_length ndef ndef_length)) = True"
| "changes_tag (Callback WasmNfcTagRemoved) = True"
| "changes_tag opn = False"

definition tag_ok :: "nfc_tag_t \<Rightarrow> bool" where
  "tag_ok tag \<longleftrightarrow> tag_uid_length tag \<le> 7 \<and> tag_ndef_length tag \<le> 512 \<and>
     length (tag_uid tag) \<le> 7 \<and> length (tag_ndef tag) \<le> 512"

definition queues_ok :: "node \<Rightarrow> bool" where
  "queues_ok s \<longleftrightarrow> length (touch_queue s) \<le> 10 \<and> length (nfc_queue s) \<le> 1 \<and>
     list_all tag_ok (nfc_queue s)"

section \<open>Properties of the simulation backend\<close>

lemma limit_queue_drop: "limit_queue q = drop (length q - 10) q"
proof (induction q rule: limit_queue.induct)
  case (1 q)
  show ?case
  proof (cases "length q > 10")
    case True
    then obtain a r where q: "q = a # r" by (cases q) auto
    with True 1 show ?thesis
      by (subst limit_queue.simps) (auto simp: drop_Cons')
  next
    case False
    then show ?thesis by (simp add: limit_queue.simps [of q])
  qed
qed

lemma length_limit_queue: "length (limit_queue q) \<le> 10"
  by (simp add: limit_queue_drop)

lemma clear_queue_empty: "clear_queue q = []"
  by (induction q) auto

lemma clamp_uid_length: "(if (n :: u8) < 7 then n else 7) \<le> 7"
  by (simp add: word_le_nat_alt word_less_nat_alt)

lemma clamp_ndef_length: "(if (n :: u16) < 512 then n else 512) \<le> 512"
  by (simp add: word_le_nat_alt word_less_nat_alt)

lemma unat_clamp_uid_length: "unat (if (n :: u8) < 7 then n else 7) \<le> 7"
  by (simp add: word_less_nat_alt)

lemma unat_clamp_ndef_length: "unat (if (n :: u16) < 512 then n else 512) \<le> 512"
  by (simp add: word_less_nat_alt)

lemma queues_ok_wasm_touch_event: "queues_ok s \<Longrightarrow> queues_ok (wasm_touch_event x y t ts s)"
  by (simp add: queues_ok_def wasm_touch_event_def Let_def length_limit_queue)

lemma queues_ok_wasm_nfc_tag: "queues_ok s \<Longrightarrow> queues_ok (wasm_nfc_tag uid ul ndef nl s)"
  using unat_clamp_uid_length [of ul] unat_clamp_ndef_length [of nl]
    clamp_uid_length [of ul] clamp_ndef_length [of nl]
  by (simp add: queues_ok_def wasm_nfc_tag_def Let_def clear_queue_empty tag_ok_def min_def)

lemma queues_ok_run_callback: "queues_ok s \<Longrightarrow> queues_ok (run_callback ev s)"
proof (cases ev)
  case (WasmTouchEvent x y t ts)
  then show "queues_ok s \<Longrightarrow> ?thesis" by (simp add: queues_ok_wasm_touch_event)
next
  case (WasmNfcTag uid ul ndef nl)
  then show "queues_ok s \<Longrightarrow> ?thesis" by (simp add: queues_ok_wasm_nfc_tag)
next
  case WasmNfcTagRemoved
  then show "queues_ok s \<Longrightarrow> ?thesis"
    by (simp add: queues_ok_def wasm_nfc_tag_removed_def clear_queue_empty)
next
  case (LedOnTimer d)
  then show "queues_ok s \<Longrightarrow> ?thesis"
    by (simp add: queues_ok_def emscripten_async_call_def js_call_def)
next
  case LedOffTimer
  then show "queues_ok s \<Longrightarrow> ?thesis" by (simp add: queues_ok_def js_call_def)
qed

lemma queues_ok_hal_step: "queues_ok s \<Longrightarrow> queues_ok (hal_step opn s)"
proof (cases opn)
  case (Callback ev)
  then show "queues_ok s \<Longrightarrow> ?thesis" by (simp add: queues_ok_run_callback)
next
  case TouchRead
  then show "queues_ok s \<Longrightarrow> ?thesis" by (auto simp: queues_ok_def touch_read_def)
qed (simp_all add: queues_ok_def nfc_get_uid_def nfc_read_ndef_def touch_init_def nfc_init_def
       debug_print_def js_call_def Let_def)

lemma queues_ok_fold: "queues_ok s \<Longrightarrow> queues_ok (fold hal_step ops s)"
  by (induction ops arbitrary: s) (simp_all add: queues_ok_hal_step)

text \<open>
  C8. On the simulation backend, whatever sequence of callbacks and reads runs from
  power-on, the touch queue holds at most 10 events, the tag queue at most one tag, and
  every queued tag has \<open>uid_length \<le> 7\<close> and \<open>ndef_length \<le> 512\<close>. A touch event
  pushed onto a full queue drops the oldest event; an injected tag empties the queue
  first and is stored with its uid cut to 7 bytes and its payload to 512.
\<close>

theorem sim_queue_invariants:
  "queues_ok (fold hal_step ops (power_on t script saves)) \<and>
   (queues_ok s \<longrightarrow> queues_ok (fold hal_step ops s)) \<and>
   (touch_initialized s \<and> length (touch_queue s) = 10 \<longrightarrow>
      touch_queue (wasm_touch_event x y ty ts s) =
        tl (touch_queue s) @ [\<lparr>touch_x = x, touch_y = y, touch_type = ty, touch_timestamp = ts\<rparr>]) \<and>
   (nfc_initialized s \<longrightarrow>
      nfc_queue (wasm_nfc_tag uid ul ndef nl s) =
        [\<lparr>tag_uid = take (min (unat ul) 7) uid, tag_uid_length = min ul 7,
          tag_ndef = take (min (unat nl) 512) ndef, tag_ndef_length = min nl 512,
          tag_timestamp = of_nat (clock s)\<rparr>])"
proof (intro conjI impI)
  have "queues_ok (power_on t script saves)"
    by (simp add: queues_ok_def power_on_def)
  then show "queues_ok (fold hal_step ops (power_on t script saves))"
    by (rule queues_ok_fold)
next
  assume "queues_ok s"
  then show "queues_ok (fold hal_step ops s)" by (rule queues_ok_fold)
next
  assume a: "touch_initialized s \<and> length (touch_queue s) = 10"
  then obtain e r where q: "touch_queue s = e # r" by (cases "touch_queue s") auto
  with a show "touch_queue (wasm_touch_event x y ty ts s) =
        tl (touch_queue s) @ [\<lparr>touch_x = x, touch_y = y, touch_type = ty, touch_timestamp = ts\<rparr>]"
    by (simp add: wasm_touch_event_def Let_def limit_queue_drop)
next
  assume "nfc_initialized s"
  moreover have "unat (if ul < 7 then ul else 7) = min (unat ul) 7"
    by (simp add: word_less_nat_alt min_def)
  moreover have "unat (if nl < 512 then nl else 512) = min (unat nl) 512"
    by (simp add: word_less_nat_alt min_def)
  moreover have "(if ul < 7 then ul else 7) = min ul 7"
    by (auto simp: min_def)
  moreover have "(if nl < 512 then nl else 512) = min nl 512"
    by (auto simp: min_def)
  ultimately show "nfc_queue (wasm_nfc_tag uid ul ndef nl s) =
        [\<lparr>tag_uid = take (min (unat ul) 7) uid, tag_uid_length = min ul 7,
          tag_ndef = take (min (unat nl) 512) ndef, tag_ndef_length = min nl 512,
          tag_timestamp = of_nat (clock s)\<rparr>]"
    by (simp add: wasm_nfc_tag_def Let_def clear_queue_empty system_millis_def js_system_millis_def)
qed

theorem sim_queue_invariants_witness:
  "queues_ok (power_on 0 [] []\<lparr>touch_initialized := True, nfc_initialized := True,
       touch_queue := replicate 10 \<lparr>touch_x = 1, touch_y = 2, touch_type = 1, touch_timestamp = 5\<rparr>\<rparr>) \<and>
   queues_ok (fold hal_step
       [Callback (WasmTouchEvent 3 4 0 9), Callback (WasmNfcTag [1, 2, 3, 4, 5, 6, 7, 8, 9] 9 [] 0)]
       (power_on 0 [] []\<lparr>touch_initialized := True, nfc_initialized := True,
          touch_queue := replicate 10 \<lparr>touch_x = 1, touch_y = 2, touch_type = 1, touch_timestamp = 5\<rparr>\<rparr>)) \<and>
   touch_queue (wasm_touch_event 3 4 0 9
       (power_on 0 [] []\<lparr>touch_initialized := True, nfc_initialized := True,
          touch_queue := replicate 10 \<lparr>touch_x = 1, touch_y = 2, touch_type = 1, touch_timestamp = 5\<rparr>\<rparr>)) =
     replicate 9 \<lparr>touch_x = 1, touch_y = 2, touch_type = 1, touch_timestamp = 5\<rparr> @
     [\<lparr>touch_x = 3, touch_y = 4, touch_type = 0, touch_timestamp = 9\<rparr>] \<and>
   nfc_queue (wasm_nfc_tag [1, 2, 3, 4, 5, 6, 7, 8, 9] 9 [] 0
       (power_on 0 [] []\<lparr>touch_initialized := True, nfc_initialized := True,
          touch_queue := replicate 10 \<lparr>touch_x = 1, touch_y = 2, touch_type = 1, touch_timestamp = 5\<rparr>\<rparr>)) =
     [\<lparr>tag_uid = [1, 2, 3, 4, 5, 6, 7], tag_uid_length = 7, tag_ndef = [], tag_ndef_length = 0,
       tag_timestamp = 0\<rparr>]"
proof -
  let ?s = "power_on 0 [] []\<lparr>touch_initialized := True, nfc_initialized := True,
       touch_queue := replicate 10 \<lparr>touch_x = 1, touch_y = 2, touch_type = 1, touch_timestamp = 5\<rparr>\<rparr>"
  have ok: "queues_ok ?s"
    by (simp add: queues_ok_def power_on_def)
  have full: "touch_initialized ?s \<and> length (touch_queue ?s) = 10"
    by (simp add: power_on_def)
  have nfc: "nfc_initialized ?s"
    by (simp add: power_on_def)
  have r: "tl (replicate 10 e) = replicate 9 e" for e :: touch_event_t
    by (simp add: numeral_nat)
  have c: "clock ?s = 0" by (simp add: power_on_def)
  from sim_queue_invariants [of
      "[Callback (WasmTouchEvent 3 4 0 9), Callback (WasmNfcTag [1, 2, 3, 4, 5, 6, 7, 8, 9] 9 [] 0)]"
      0 "[]" "[]" ?s 3 4 0 9 "[1, 2, 3, 4, 5, 6, 7, 8, 9]" 9 "[]" 0] ok full nfc
  show ?thesis
    by (simp add: r c)
qed

text \<open>
  C9. In the read paths of the simulation backend, "not initialized" and "nothing
  queued" give the same answer: \<open>touch_read\<close> returns false (\<open>None\<close>) and leaves the node
  as it is both before \<open>touch_init\<close> and on an empty touch queue, and \<open>nfc_get_uid\<close>
  returns 0 and writes nothing both before \<open>nfc_init\<close> and on an empty tag queue. So a
  node that was never initialized and an initialized one with empty queues answer a
  poll alike.
\<close>

theorem sim_reads_hide_uninitialized:
  "(\<not> touch_initialized s \<or> touch_queue s = [] \<longrightarrow> touch_read s = (None, s)) \<and>
   (\<not> nfc_initialized s \<or> nfc_queue s = [] \<longrightarrow> nfc_get_uid s = ((0, []), s)) \<and>
   (\<not> touch_initialized s \<and> touch_initialized s' \<and> touch_queue s' = [] \<longrightarrow>
      fst (touch_read s) = fst (touch_read s')) \<and>
   (\<not> nfc_initialized s \<and> nfc_initialized s' \<and> nfc_queue s' = [] \<longrightarrow>
      fst (nfc_get_uid s) = fst (nfc_get_uid s'))"
  by (simp add: touch_read_def nfc_get_uid_def)

theorem sim_reads_hide_uninitialized_witness:
  "\<not> touch_initialized (power_on 0 [] []) \<and> \<not> nfc_initialized (power_on 0 [] []) \<and>
   touch_initialized (touch_init (nfc_init (power_on 0 [] []))) \<and>
   touch_queue (touch_init (nfc_init (power_on 0 [] []))) = [] \<and>
   nfc_initialized (touch_init (nfc_init (power_on 0 [] []))) \<and>
   nfc_queue (touch_init (nfc_init (power_on 0 [] []))) = [] \<and>
   fst (touch_read (power_on 0 [] [])) = None \<and>
   fst (touch_read (touch_init (nfc_init (power_on 0 [] [])))) = None \<and>
   fst (nfc_get_uid (power_on 0 [] [])) = (0, []) \<and>
   fst (nfc_get_uid (touch_init (nfc_init (power_on 0 [] [])))) = (0, [])"
proof -
  let ?s = "power_on 0 [] []"
  let ?s' = "touch_init (nfc_init (power_on 0 [] []))"
  have a: "\<not> touch_initialized ?s \<and> \<not> nfc_initialized ?s"
    by (simp add: power_on_def)
  have b: "touch_initialized ?s' \<and> touch_queue ?s' = [] \<and> nfc_initialized ?s' \<and> nfc_queue ?s' = []"
    by (simp add: power_on_def touch_init_def nfc_init_def debug_print_def js_call_def)
  from sim_reads_hide_uninitialized [of ?s ?s'] sim_reads_hide_uninitialized [of ?s' ?s] a b
  show ?thesis by simp
qed

lemma nfc_initialized_run_callback: "nfc_initialized (run_callback ev s) = nfc_initialized s"
  by (cases ev)
     (simp_all add: wasm_touch_event_def wasm_nfc_tag_def wasm_nfc_tag_removed_def
        emscripten_async_call_def js_call_def Let_def)

lemma nfc_initialized_hal_step: "nfc_initialized s \<Longrightarrow> nfc_initialized (hal_step opn s)"
  by (cases opn)
     (simp_all add: nfc_initialized_run_callback touch_read_def nfc_get_uid_def nfc_read_ndef_def
        touch_init_def nfc_init_def debug_print_def js_call_def Let_def)

lemma nfc_queue_run_callback:
  "\<not> changes_tag (Callback ev) \<Longrightarrow> nfc_queue (run_callback ev s) = nfc_queue s"
  by (cases ev) (simp_all add: wasm_touch_event_def emscripten_async_call_def js_call_def Let_def)

lemma nfc_queue_hal_step: "\<not> changes_tag opn \<Longrightarrow> nfc_queue (hal_step opn s) = nfc_queue s"
  by (cases opn)
     (simp_all add: nfc_queue_run_callback touch_read_def nfc_get_uid_def nfc_read_ndef_def
        touch_init_def nfc_init_def debug_print_def js_call_def Let_def)

lemma tag_kept_fold:
  "list_all (\<lambda>opn. \<not> changes_tag opn) ops \<Longrightarrow> nfc_initialized s \<Longrightarrow>
   nfc_queue (fold hal_step ops s) = nfc_queue s \<and> nfc_initialized (fold hal_step ops s)"
  by (induction ops arbitrary: s) (simp_all add: nfc_queue_hal_step nfc_initialized_hal_step)

text \<open>
  C10. On the simulation backend \<open>nfc_get_uid\<close> and \<open>nfc_read_ndef\<close> leave the node as
  it is. After a tag is injected into an initialized backend, and after any further
  operations other than a new injection or a removal, \<open>nfc_tag_present\<close> is true and
  \<open>nfc_get_uid\<close> returns the same length and the same uid bytes: the injected ones, cut
  to 7. A removal makes \<open>nfc_tag_present\<close> false.
\<close>

theorem sim_tag_stays_until_removed:
  "snd (nfc_get_uid s) = s \<and> snd (nfc_read_ndef s) = s \<and>
   (nfc_initialized s \<and> list_all (\<lambda>opn. \<not> changes_tag opn) ops \<longrightarrow>
      nfc_tag_present (fold hal_step ops (wasm_nfc_tag uid ul ndef nl s)) \<and>
      fst (nfc_get_uid (fold hal_step ops (wasm_nfc_tag uid ul ndef nl s))) =
        (uint (min ul 7), take (unat (min ul 7)) uid) \<and>
      \<not> nfc_tag_present (wasm_nfc_tag_removed (fold hal_step ops (wasm_nfc_tag uid ul ndef nl s))))"
proof (intro conjI impI)
  show "snd (nfc_get_uid s) = s" by (simp add: nfc_get_uid_def Let_def)
  show "snd (nfc_read_ndef s) = s" by (simp add: nfc_read_ndef_def Let_def)
next
  assume a: "nfc_initialized s \<and> list_all (\<lambda>opn. \<not> changes_tag opn) ops"
  let ?t = "wasm_nfc_tag uid ul ndef nl s"
  have m: "(if ul < 7 then ul else 7) = min ul 7" by (auto simp: min_def)
  have q: "nfc_queue ?t = [\<lparr>tag_uid = take (unat (min ul 7)) uid, tag_uid_length = min ul 7,
          tag_ndef = take (unat (if nl < 512 then nl else 512)) ndef,
          tag_ndef_length = (if nl < 512 then nl else 512), tag_timestamp = system_millis s\<rparr>]"
    using a by (simp add: wasm_nfc_tag_def Let_def clear_queue_empty m)
  have i: "nfc_initialized ?t"
    using a by (simp add: wasm_nfc_tag_def Let_def)
  from tag_kept_fold [of ops ?t] a i
  have k: "nfc_queue (fold hal_step ops ?t) = nfc_queue ?t" "nfc_initialized (fold hal_step ops ?t)"
    by simp_all
  show "nfc_tag_present (fold hal_step ops ?t)"
    by (simp add: nfc_tag_present_def k q)
  show "fst (nfc_get_uid (fold hal_step ops ?t)) = (uint (min ul 7), take (unat (min ul 7)) uid)"
    by (simp add: nfc_get_uid_def k q)
  show "\<not> nfc_tag_present (wasm_nfc_tag_removed (fold hal_step ops ?t))"
    by (simp add: nfc_tag_present_def wasm_nfc_tag_removed_def clear_queue_empty)
qed

theorem sim_tag_stays_until_removed_witness:
  "nfc_initialized (nfc_init (power_on 0 [] [])) \<and>
   list_all (\<lambda>opn. \<not> changes_tag opn) [NfcTagPresent, NfcGetUid, NfcReadNdef, TouchRead, NfcGetUid] \<and>
   nfc_tag_present (fold hal_step [NfcTagPresent, NfcGetUid, NfcReadNdef, TouchRead, NfcGetUid]
      (wasm_nfc_tag [0xAA, 0xBB] 2 [1, 2, 3] 3 (nfc_init (power_on 0 [] [])))) \<and>
   fst (nfc_get_uid (fold hal_step [NfcTagPresent, NfcGetUid, NfcReadNdef, TouchRead, NfcGetUid]
      (wasm_nfc_tag [0xAA, 0xBB] 2 [1, 2, 3] 3 (nfc_init (power_on 0 [] []))))) = (2, [0xAA, 0xBB])"
proof -
  have a: "nfc_initialized (nfc_init (power_on 0 [] []))"
    by (simp add: nfc_init_def debug_print_def js_call_def)
  have b: "list_all (\<lambda>opn. \<not> changes_tag opn) [NfcTagPresent, NfcGetUid, NfcReadNdef, TouchRead, NfcGetUid]"
    by simp
  from sim_tag_stays_until_removed [of "nfc_init (power_on 0 [] [])"
      "[NfcTagPresent, NfcGetUid, NfcReadNdef, TouchRead, NfcGetUid]" "[0xAA, 0xBB]" 2 "[1, 2, 3]" 3] a b
  show ?thesis by simp
qed

section \<open>What the operations change\<close>

text \<open>The calls that draw the status screen, the ready screen and the menu.\<close>

definition status_screen :: "string \<Rightarrow> string \<Rightarrow> js_call list" where
  "status_screen lbl message =
     [JsDisplayClear, JsDisplayDrawText 10 10 ''MELD Node'' 2, JsDisplayDrawText 10 50 lbl 1,
      JsDisplayDrawText 10 80 ''Status:'' 1, JsDisplayDrawText 10 100 message 1, JsDisplayUpdate True]"

definition ready_screen :: "string \<Rightarrow> js_call list" where
  "ready_screen lbl =
     [JsDisplayClear, JsDisplayDrawText 50 50 ''MELD Node'' 3, JsDisplayDrawText 30 120 lbl 2,
      JsDisplayDrawText 10 180 ''Tap NFC tag to activate'' 1,
      JsDisplayDrawText 10 200 ''Touch screen for menu'' 1, JsDisplayUpdate False]"

definition menu_screen :: "js_call list" where
  "menu_screen =
     [JsDisplayClear, JsDisplayDrawText 10 10 ''MELD Node Menu'' 2,
      JsDisplayDrawText 10 50 ''1. View Stats'' 1, JsDisplayDrawText 10 70 ''2. Clear Data'' 1,
      JsDisplayDrawText 10 90 ''3. Test NFC'' 1, JsDisplayDrawText 10 110 ''4. Node Info'' 1,
      JsDisplayDrawText 10 250 ''Touch to exit'' 1, JsDisplayUpdate True]"

text \<open>Kinds of host calls.\<close>

fun is_display :: "js_call \<Rightarrow> bool" where
  "is_display JsDisplayClear = True"
| "is_display (JsDisplaySetPixel x y b) = True"
| "is_display (JsDisplayDrawText x y txt sz) = True"
| "is_display (JsDisplayUpdate p) = True"
| "is_display c = False"

fun is_save :: "js_call \<Rightarrow> bool" where
  "is_save (JsStorageSave key data) = True"
| "is_save c = False"

fun is_feedback :: "js_call \<Rightarrow> bool" where
  "is_feedback (JsLedSet on) = True"
| "is_feedback (JsBuzzerTone f d) = True"
| "is_feedback c = False"

text \<open>The debug line that \<^verbatim>\<open>loop\<close> prints right before each ritual dispatch.\<close>

fun is_activation :: "js_call \<Rightarrow> bool" where
  "is_activation (JsDebugPrint m) = prefix ''NFC tag detected: '' m"
| "is_activation c = False"

definition activations :: "node \<Rightarrow> nat" where
  "activations s = length (filter is_activation (trace s))"

text \<open>The globals of fw/main.cpp and the init flags: what only the firmware itself sets.\<close>

definition fw_frame ::
  "node \<Rightarrow> bool \<times> bool \<times> bool \<times> ritual_config_t \<times> bool \<times> u64 \<times> string \<times> u64" where
  "fw_frame s = (display_initialized s, nfc_initialized s, touch_initialized s, current_ritual s,
     ritual_initialized s, last_nfc_check s, last_uid s, last_touch_time s)"

definition store :: "node \<Rightarrow> (string \<rightharpoonup> u8 list) \<times> bool list" where
  "store s = (storage s, save_script s)"

text \<open>All of the node but the pending host events.\<close>

definition but_pending :: "node \<Rightarrow> node" where
  "but_pending s = s\<lparr>pending := []\<rparr>"

lemma fw_frameD:
  "fw_frame t = fw_frame s \<Longrightarrow>
   display_initialized t = display_initialized s \<and> nfc_initialized t = nfc_initialized s \<and>
   touch_initialized t = touch_initialized s \<and> current_ritual t = current_ritual s \<and>
   ritual_initialized t = ritual_initialized s \<and> last_nfc_check t = last_nfc_check s \<and>
   last_uid t = last_uid s \<and> last_touch_time t = last_touch_time s"
  by (simp add: fw_frame_def)

lemma storeD: "store t = store s \<Longrightarrow> storage t = storage s \<and> save_script t = save_script s"
  by (simp add: store_def)

lemma but_pendingD:
  assumes "but_pending t = but_pending s"
  shows "fw_frame t = fw_frame s \<and> store t = store s \<and> clock t = clock s \<and> trace t = trace s \<and>
         touch_queue t = touch_queue s \<and> nfc_queue t = nfc_queue s"
proof -
  have "f (but_pending t) = f (but_pending s)" for f :: "node \<Rightarrow> 'a"
    using assms by simp
  from this [of fw_frame] this [of store] this [of clock] this [of trace]
    this [of touch_queue] this [of nfc_queue]
  show ?thesis by (simp add: but_pending_def fw_frame_def store_def)
qed

subsection \<open>Output operations\<close>

lemma debug_print_eq: "debug_print m s = s\<lparr>trace := trace s @ [JsDebugPrint m]\<rparr>"
  by (simp add: debug_print_def js_call_def)

lemma debug_printf_eq: "debug_printf m s = s\<lparr>trace := trace s @ [JsDebugPrint (take 511 m)]\<rparr>"
  by (simp add: debug_printf_def debug_print_eq)

lemma led_set_eq: "led_set on s = s\<lparr>trace := trace s @ [JsLedSet on]\<rparr>"
  by (simp add: led_set_def js_call_def)

lemma buzzer_tone_eq: "buzzer_tone f d s = s\<lparr>trace := trace s @ [JsBuzzerTone f d]\<rparr>"
  by (simp add: buzzer_tone_def js_call_def)

lemma display_on:
  assumes "display_initialized s"
  shows "display_clear s = s\<lparr>trace := trace s @ [JsDisplayClear]\<rparr>"
    and "display_draw_text x y txt sz s = s\<lparr>trace := trace s @ [JsDisplayDrawText x y txt sz]\<rparr>"
    and "display_update p s = s\<lparr>trace := trace s @ [JsDisplayUpdate p]\<rparr>"
  using assms by (simp_all add: display_clear_def display_draw_text_def display_update_def js_call_def)

lemma display_off:
  assumes "\<not> display_initialized s"
  shows "display_clear s = s" and "display_draw_text x y txt sz s = s" and "display_update p s = s"
  using assms by (simp_all add: display_clear_def display_draw_text_def display_update_def)

lemma show_status_message_eq:
  "show_status_message m s =
     s\<lparr>trace := trace s @ (if display_initialized s then status_screen (label (current_ritual s)) m else [])\<rparr>"
proof (cases "display_initialized s")
  case True
  then show ?thesis
    by (simp add: show_status_message_def status_screen_def display_on Let_def)
next
  case False
  then show ?thesis
    by (simp add: show_status_message_def display_off Let_def)
qed

lemma show_ready_screen_eq:
  "show_ready_screen s =
     s\<lparr>trace := trace s @ (if display_initialized s then ready_screen (label (current_ritual s)) else [])\<rparr>"
proof (cases "display_initialized s")
  case True
  then show ?thesis
    by (simp add: show_ready_screen_def ready_screen_def display_on Let_def)
next
  case False
  then show ?thesis
    by (simp add: show_ready_screen_def display_off Let_def)
qed

lemma show_menu_eq:
  "show_menu s = s\<lparr>trace := trace s @ (if display_initialized s then menu_screen else [])\<rparr>"
proof (cases "display_initialized s")
  case True
  then show ?thesis
    by (simp add: show_menu_def menu_screen_def display_on Let_def)
next
  case False
  then show ?thesis
    by (simp add: show_menu_def display_off Let_def)
qed

lemmas output_eqs =
  debug_print_eq debug_printf_eq led_set_eq buzzer_tone_eq show_status_message_eq
  show_ready_screen_eq show_menu_eq

subsection \<open>Scheduling blinks\<close>

lemma but_pending_async: "but_pending (emscripten_async_call f ms s) = but_pending s"
  by (simp add: but_pending_def emscripten_async_call_def)

lemma but_pending_led_blink_from: "but_pending (led_blink_from i n d s) = but_pending s"
proof (induction i n d s rule: led_blink_from.induct)
  case (1 i n d s)
  then show ?case
    by (cases "i < n") (simp_all add: led_blink_from.simps [of i n d s] but_pending_async)
qed

lemma but_pending_led_blink: "but_pending (led_blink n d s) = but_pending s"
  by (simp add: led_blink_def but_pending_led_blink_from)

lemmas led_blink_keeps [simp] = but_pendingD [OF but_pending_led_blink]

subsection \<open>Delays\<close>

lemma keeps_run_callback:
  "fw_frame (run_callback ev s) = fw_frame s \<and> store (run_callback ev s) = store s"
  by (cases ev)
     (simp_all add: fw_frame_def store_def wasm_touch_event_def wasm_nfc_tag_def
        wasm_nfc_tag_removed_def emscripten_async_call_def js_call_def Let_def)

lemma trace_run_callback:
  "\<exists>leds. trace (run_callback ev s) = trace s @ map JsLedSet leds"
proof (cases ev)
  case (LedOnTimer d)
  have "trace (run_callback (LedOnTimer d) s) = trace s @ map JsLedSet [True]"
    by (simp add: emscripten_async_call_def js_call_def)
  with LedOnTimer show ?thesis by blast
next
  case LedOffTimer
  have "trace (run_callback LedOffTimer s) = trace s @ map JsLedSet [False]"
    by (simp add: js_call_def)
  with LedOffTimer show ?thesis by blast
next
  case (WasmTouchEvent x y t ts)
  have "trace (run_callback (WasmTouchEvent x y t ts) s) = trace s @ map JsLedSet []"
    by (simp add: wasm_touch_event_def Let_def)
  with WasmTouchEvent show ?thesis by blast
next
  case (WasmNfcTag uid ul ndef nl)
  have "trace (run_callback (WasmNfcTag uid ul ndef nl) s) = trace s @ map JsLedSet []"
    by (simp add: wasm_nfc_tag_def Let_def)
  with WasmNfcTag show ?thesis by blast
next
  case WasmNfcTagRemoved
  have "trace (run_callback WasmNfcTagRemoved s) = trace s @ map JsLedSet []"
    by (simp add: wasm_nfc_tag_removed_def)
  with WasmNfcTagRemoved show ?thesis by blast
qed

lemma host_event_loop_effect:
  "fw_frame (host_event_loop until s) = fw_frame s \<and> store (host_event_loop until s) = store s \<and>
   (\<exists>leds. trace (host_event_loop until s) = trace s @ map JsLedSet leds)"
proof (induction until s rule: host_event_loop.induct)
  case (1 until s)
  show ?case
  proof (cases "pending s")
    case Nil
    then show ?thesis by (simp add: host_event_loop.simps [of until s])
  next
    case (Cons p rest)
    obtain due ev where p: "p = (due, ev)" by (cases p)
    show ?thesis
    proof (cases "due \<le> until")
      case False
      then show ?thesis using Cons p by (simp add: host_event_loop.simps [of until s])
    next
      case True
      let ?s0 = "s\<lparr>pending := rest, clock := max (clock s) due\<rparr>"
      let ?s1 = "run_callback ev ?s0"
      have h: "host_event_loop until s = host_event_loop until ?s1"
        using Cons p True by (simp add: host_event_loop.simps [of until s])
      from "1.IH" [OF Cons p [symmetric] True]
      obtain leds where ih: "fw_frame (host_event_loop until ?s1) = fw_frame ?s1"
        "store (host_event_loop until ?s1) = store ?s1"
        "trace (host_event_loop until ?s1) = trace ?s1 @ map JsLedSet leds"
        by blast
      from trace_run_callback [of ev ?s0]
      obtain leds0 where t0: "trace ?s1 = trace ?s0 @ map JsLedSet leds0" by blast
      have k: "fw_frame ?s1 = fw_frame s" "store ?s1 = store s"
        using keeps_run_callback [of ev ?s0] by (simp_all add: fw_frame_def store_def)
      have "trace (host_event_loop until s) = trace s @ map JsLedSet (leds0 @ leds)"
        using h ih(3) t0 by simp
      then show ?thesis using h ih(1,2) k by (metis (no_types))
    qed
  qed
qed

lemma system_delay_effect:
  "fw_frame (system_delay ms s) = fw_frame s \<and> store (system_delay ms s) = store s \<and>
   (\<exists>leds. trace (system_delay ms s) = trace s @ map JsLedSet leds)"
  using host_event_loop_effect [of "clock s + unat ms" s]
  by (simp add: system_delay_def emscripten_sleep_def Let_def fw_frame_def store_def)

lemmas system_delay_frame [simp] = fw_frameD [OF conjunct1 [OF system_delay_effect]]
lemmas system_delay_store [simp] = storeD [OF conjunct1 [OF conjunct2 [OF system_delay_effect]]]
declare clock_system_delay [simp]

lemma filter_led_free:
  "(\<And>on. \<not> P (JsLedSet on)) \<Longrightarrow> filter P (xs @ map JsLedSet leds) = filter P xs"
  by (induction leds arbitrary: xs) (simp_all add: filter_empty_conv)

lemma filter_trace_system_delay:
  assumes "\<And>on. \<not> P (JsLedSet on)"
  shows "filter P (trace (system_delay ms s)) = filter P (trace s)"
proof -
  from system_delay_effect [of ms s]
  obtain leds where "trace (system_delay ms s) = trace s @ map JsLedSet leds" by blast
  then show ?thesis using assms by (simp add: filter_led_free)
qed

lemma display_trace_system_delay [simp]:
  "filter is_display (trace (system_delay ms s)) = filter is_display (trace s)"
  by (rule filter_trace_system_delay) simp

lemma save_trace_system_delay [simp]:
  "filter is_save (trace (system_delay ms s)) = filter is_save (trace s)"
  by (rule filter_trace_system_delay) simp

lemma activation_trace_system_delay [simp]:
  "filter is_activation (trace (system_delay ms s)) = filter is_activation (trace s)"
  by (rule filter_trace_system_delay) simp

subsection \<open>Feedback\<close>

text \<open>
  \<open>feedback_only s t\<close>: from \<open>s\<close> to \<open>t\<close> the firmware's own variables and the store are
  unchanged and the host was only asked for LED and buzzer output.
\<close>

definition feedback_only :: "node \<Rightarrow> node \<Rightarrow> bool" where
  "feedback_only s t \<longleftrightarrow> fw_frame t = fw_frame s \<and> store t = store s \<and>
     (\<exists>fb. trace t = trace s @ fb \<and> list_all is_feedback fb)"

lemma feedback_only_refl: "feedback_only s s"
  by (simp add: feedback_only_def)

lemma feedback_only_trans: "feedback_only s t \<Longrightarrow> feedback_only t u \<Longrightarrow> feedback_only s u"
  by (auto simp: feedback_only_def)

lemma feedback_only_system_delay: "feedback_only s (system_delay ms s)"
proof -
  from system_delay_effect [of ms s]
  obtain leds where "trace (system_delay ms s) = trace s @ map JsLedSet leds" by blast
  moreover have "list_all is_feedback (map JsLedSet leds)"
    by (induction leds) simp_all
  ultimately show ?thesis
    using system_delay_effect [of ms s] by (auto simp: feedback_only_def)
qed

lemma feedback_only_led_set: "feedback_only s (led_set on s)"
  by (simp add: feedback_only_def led_set_eq fw_frame_def store_def)

lemma feedback_only_buzzer_tone: "feedback_only s (buzzer_tone f d s)"
  by (simp add: feedback_only_def buzzer_tone_eq fw_frame_def store_def)

lemma feedback_only_led_blink: "feedback_only s (led_blink n d s)"
  by (simp add: feedback_only_def)

lemma feedback_only_then:
  assumes "feedback_only s t"
  shows "feedback_only s (system_delay ms t)" and "feedback_only s (led_set on t)"
    and "feedback_only s (buzzer_tone f d t)" and "feedback_only s (led_blink n d' t)"
  by (rule feedback_only_trans [OF assms feedback_only_system_delay]
           feedback_only_trans [OF assms feedback_only_led_set]
           feedback_only_trans [OF assms feedback_only_buzzer_tone]
           feedback_only_trans [OF assms feedback_only_led_blink])+

lemma feedback_only_buzzer_success: "feedback_only s (buzzer_success s)"
  unfolding buzzer_success_def Let_def
  by (intro feedback_only_then feedback_only_refl)

lemma feedback_only_rainbow_from: "feedback_only s (rainbow_from i s)"
proof (induction i s rule: rainbow_from.induct)
  case (1 i s)
  show ?case
  proof (cases "i < 10")
    case True
    let ?t = "system_delay 50 (led_set False (system_delay 100
                (buzzer_tone (of_int (500 + i * 100)) 100 (led_set True s))))"
    have "feedback_only s ?t"
      by (intro feedback_only_then feedback_only_refl)
    moreover have "feedback_only ?t (rainbow_from (i + 1) ?t)"
      using "1.IH" [OF True] by (simp only: Let_def)
    moreover have "rainbow_from i s = rainbow_from (i + 1) ?t"
      using True by (subst rainbow_from.simps) (simp only: Let_def if_True)
    ultimately show ?thesis
      using feedback_only_trans by simp
  next
    case False
    then show ?thesis by (simp add: rainbow_from.simps [of i s] feedback_only_refl)
  qed
qed

lemma feedback_only_pulse_from: "feedback_only s (pulse_from i s)"
proof (induction i s rule: pulse_from.induct)
  case (1 i s)
  show ?case
  proof (cases "i < 5")
    case True
    let ?t = "system_delay 50 (led_set False (system_delay 50 (led_set True s)))"
    have "feedback_only s ?t"
      by (intro feedback_only_then feedback_only_refl)
    moreover have "feedback_only ?t (pulse_from (i + 1) ?t)"
      using "1.IH" [OF True] by (simp only: Let_def)
    moreover have "pulse_from i s = pulse_from (i + 1) ?t"
      using True by (subst pulse_from.simps) (simp only: Let_def if_True)
    ultimately show ?thesis
      using feedback_only_trans by simp
  next
    case False
    then show ?thesis by (simp add: pulse_from.simps [of i s] feedback_only_refl)
  qed
qed

lemma feedback_only_frame: "feedback_only s t \<Longrightarrow> fw_frame t = fw_frame s"
  by (simp add: feedback_only_def)

lemma feedback_only_store: "feedback_only s t \<Longrightarrow> store t = store s"
  by (simp add: feedback_only_def)

lemma feedback_only_filter:
  assumes "feedback_only s t" and "\<And>c. is_feedback c \<Longrightarrow> \<not> P c"
  shows "filter P (trace t) = filter P (trace s)"
proof -
  from assms(1) obtain fb where t: "trace t = trace s @ fb" and fb: "list_all is_feedback fb"
    by (auto simp: feedback_only_def)
  from fb assms(2) have "filter P fb = []"
    by (induction fb) auto
  with t show ?thesis by simp
qed

lemmas buzzer_success_frame [simp] = fw_frameD [OF feedback_only_frame [OF feedback_only_buzzer_success]]
lemmas buzzer_success_store [simp] = storeD [OF feedback_only_store [OF feedback_only_buzzer_success]]
lemmas rainbow_from_frame [simp] = fw_frameD [OF feedback_only_frame [OF feedback_only_rainbow_from]]
lemmas rainbow_from_store [simp] = storeD [OF feedback_only_store [OF feedback_only_rainbow_from]]
lemmas pulse_from_frame [simp] = fw_frameD [OF feedback_only_frame [OF feedback_only_pulse_from]]
lemmas pulse_from_store [simp] = storeD [OF feedback_only_store [OF feedback_only_pulse_from]]

lemma clock_buzzer_success [simp]: "clock (buzzer_success s) = clock s + 240"
  by (simp add: buzzer_success_def Let_def buzzer_tone_eq)

lemma filter_trace_feedback:
  assumes "\<And>c. is_feedback c \<Longrightarrow> \<not> P c"
  shows "filter P (trace (system_delay ms s)) = filter P (trace s)"
    and "filter P (trace (buzzer_success s)) = filter P (trace s)"
    and "filter P (trace (rainbow_from i s)) = filter P (trace s)"
    and "filter P (trace (pulse_from i s)) = filter P (trace s)"
    and "filter P (trace (led_set on s)) = filter P (trace s)"
    and "filter P (trace (buzzer_tone f d s)) = filter P (trace s)"
proof -
  note r = feedback_only_filter [where P = P, OF _ assms]
  show "filter P (trace (system_delay ms s)) = filter P (trace s)"
    by (rule r [OF feedback_only_system_delay])
  show "filter P (trace (buzzer_success s)) = filter P (trace s)"
    by (rule r [OF feedback_only_buzzer_success])
  show "filter P (trace (rainbow_from i s)) = filter P (trace s)"
    by (rule r [OF feedback_only_rainbow_from])
  show "filter P (trace (pulse_from i s)) = filter P (trace s)"
    by (rule r [OF feedback_only_pulse_from])
  show "filter P (trace (led_set on s)) = filter P (trace s)"
    by (rule r [OF feedback_only_led_set])
  show "filter P (trace (buzzer_tone f d s)) = filter P (trace s)"
    by (rule r [OF feedback_only_buzzer_tone])
qed

subsection \<open>Saving\<close>

definition next_save_ok :: "node \<Rightarrow> bool" where
  "next_save_ok s = (case save_script s of [] \<Rightarrow> True | b # bs \<Rightarrow> b)"

lemma storage_save_eq:
  "len \<noteq> 0 \<Longrightarrow>
   snd (storage_save key data len s) =
     s\<lparr>save_script := tl (save_script s),
       trace := trace s @ [JsStorageSave key (take (unat len) data)],
       storage := (if next_save_ok s then (storage s)(key \<mapsto> take (unat len) data) else storage s)\<rparr>"
  by (simp add: storage_save_def js_storage_save_def js_call_def Let_def next_save_ok_def)

lemma storage_save_none: "snd (storage_save key data 0 s) = s"
  by (simp add: storage_save_def)

text \<open>A text that fits its C buffer is passed on whole.\<close>

lemma strlen_fits:
  assumes "length txt < 65536"
  shows "unat (strlen txt) = length txt" and "strlen txt = 0 \<longleftrightarrow> txt = []"
proof -
  show u: "unat (strlen txt) = length txt"
    using assms by (simp add: strlen_def unat_of_nat)
  show "strlen txt = 0 \<longleftrightarrow> txt = []"
  proof
    assume "strlen txt = 0"
    then have "unat (strlen txt) = 0" by simp
    with u show "txt = []" by simp
  next
    assume "txt = []"
    then show "strlen txt = 0" by (simp add: strlen_def)
  qed
qed

lemma length_fmt_u: "n < 10 ^ k \<Longrightarrow> 0 < k \<Longrightarrow> length (fmt_u n) \<le> k"
proof (induction n arbitrary: k rule: fmt_u.induct)
  case (1 n)
  show ?case
  proof (cases "n < 10")
    case True
    with 1 show ?thesis by (simp add: fmt_u.simps [of n])
  next
    case False
    obtain j where k: "k = Suc j"
      using "1.prems" by (cases k) auto
    have j: "0 < j"
    proof (rule ccontr)
      assume "\<not> 0 < j"
      with k "1.prems" False show False by simp
    qed
    have "n div 10 < 10 ^ j"
      using "1.prems" k by (simp add: less_mult_imp_div_less)
    from "1.IH" [OF False this j] k False show ?thesis
      by (simp add: fmt_u.simps [of n])
  qed
qed

lemma length_fmt_u64: "length (fmt_u (unat (w :: u64))) \<le> 20"
proof -
  have "unat w < 2 ^ 64" using unsigned_less [of w, where ?'a = nat] by simp
  also have "(2::nat) ^ 64 < 10 ^ 20" by simp
  finally show ?thesis by (simp add: length_fmt_u)
qed

subsection \<open>Field by field\<close>

lemma trace_updateD:
  "t = s\<lparr>trace := X\<rparr> \<Longrightarrow>
   display_initialized t = display_initialized s \<and> nfc_initialized t = nfc_initialized s \<and>
   touch_initialized t = touch_initialized s \<and> current_ritual t = current_ritual s \<and>
   ritual_initialized t = ritual_initialized s \<and> last_nfc_check t = last_nfc_check s \<and>
   last_uid t = last_uid s \<and> last_touch_time t = last_touch_time s \<and>
   storage t = storage s \<and> save_script t = save_script s \<and> clock t = clock s \<and>
   pending t = pending s \<and> touch_queue t = touch_queue s \<and> nfc_queue t = nfc_queue s \<and>
   trace t = X"
  by simp

lemmas debug_print_fields [simp] = trace_updateD [OF debug_print_eq]
lemmas debug_printf_fields [simp] = trace_updateD [OF debug_printf_eq]
lemmas led_set_fields [simp] = trace_updateD [OF led_set_eq]
lemmas buzzer_tone_fields [simp] = trace_updateD [OF buzzer_tone_eq]
lemmas show_status_message_fields [simp] = trace_updateD [OF show_status_message_eq]
lemmas show_ready_screen_fields [simp] = trace_updateD [OF show_ready_screen_eq]
lemmas show_menu_fields [simp] = trace_updateD [OF show_menu_eq]
lemmas led_blink_frame [simp] = fw_frameD [OF conjunct1 [OF but_pendingD [OF but_pending_led_blink]]]
lemmas led_blink_store [simp] = storeD [OF conjunct1 [OF conjunct2 [OF but_pendingD [OF but_pending_led_blink]]]]

lemma storage_save_fields [simp]:
  "fw_frame (snd (storage_save key data len s)) = fw_frame s"
  "clock (snd (storage_save key data len s)) = clock s"
  "pending (snd (storage_save key data len s)) = pending s"
  "touch_queue (snd (storage_save key data len s)) = touch_queue s"
  "nfc_queue (snd (storage_save key data len s)) = nfc_queue s"
  "trace (snd (storage_save key data len s)) =
     trace s @ (if len = 0 then [] else [JsStorageSave key (take (unat len) data)])"
  "save_script (snd (storage_save key data len s)) = (if len = 0 then save_script s else tl (save_script s))"
  "storage (snd (storage_save key data len s)) =
     (if len \<noteq> 0 \<and> next_save_ok s then (storage s)(key \<mapsto> take (unat len) data) else storage s)"
  by (cases "len = 0"; simp add: storage_save_eq storage_save_none fw_frame_def)+

lemmas storage_save_frame [simp] = fw_frameD [OF storage_save_fields(1)]

lemma clock_rainbow_from: "clock (rainbow_from i s) = clock s + nat (10 - i) * 150"
proof (induction i s rule: rainbow_from.induct)
  case (1 i s)
  show ?case
  proof (cases "i < 10")
    case True
    have "nat (10 - i) = Suc (nat (10 - (i + 1)))" using True by simp
    with "1.IH" [OF True] True show ?thesis
      by (subst rainbow_from.simps) (simp add: Let_def)
  next
    case False
    then show ?thesis by (simp add: rainbow_from.simps [of i s])
  qed
qed

lemma clock_pulse_from: "clock (pulse_from i s) = clock s + nat (5 - i) * 100"
proof (induction i s rule: pulse_from.induct)
  case (1 i s)
  show ?case
  proof (cases "i < 5")
    case True
    have "nat (5 - i) = Suc (nat (5 - (i + 1)))" using True by simp
    with "1.IH" [OF True] True show ?thesis
      by (subst pulse_from.simps) (simp add: Let_def)
  next
    case False
    then show ?thesis by (simp add: pulse_from.simps [of i s])
  qed
qed

declare clock_rainbow_from [simp] clock_pulse_from [simp]

lemma system_millis_eq [simp]: "system_millis s = of_nat (clock s)"
  by (simp add: system_millis_def js_system_millis_def)

subsection \<open>The store is only written by \<^verbatim>\<open>storage_save\<close>\<close>

text \<open>\<open>with_store m x s\<close> is \<open>s\<close> on a host whose store holds \<open>m\<close> and whose saves go as \<open>x\<close>.\<close>

definition with_store :: "(string \<rightharpoonup> u8 list) \<Rightarrow> bool list \<Rightarrow> node \<Rightarrow> node" where
  "with_store m x s = s\<lparr>storage := m, save_script := x\<rparr>"

lemma with_store_fields [simp]:
  "fw_frame (with_store m x s) = fw_frame s"
  "clock (with_store m x s) = clock s"
  "pending (with_store m x s) = pending s"
  "touch_queue (with_store m x s) = touch_queue s"
  "nfc_queue (with_store m x s) = nfc_queue s"
  "trace (with_store m x s) = trace s"
  "storage (with_store m x s) = m"
  "save_script (with_store m x s) = x"
  by (simp_all add: with_store_def fw_frame_def)

lemmas with_store_frame [simp] = fw_frameD [OF with_store_fields(1)]

lemma with_store_twice [simp]: "with_store m x (with_store m' x' s) = with_store m x s"
  by (simp add: with_store_def)

lemma with_store_output [simp]:
  "debug_printf msg (with_store m x s) = with_store m x (debug_printf msg s)"
  "led_set on (with_store m x s) = with_store m x (led_set on s)"
  "buzzer_tone f d (with_store m x s) = with_store m x (buzzer_tone f d s)"
  "show_status_message msg (with_store m x s) = with_store m x (show_status_message msg s)"
  "show_ready_screen (with_store m x s) = with_store m x (show_ready_screen s)"
  "show_menu (with_store m x s) = with_store m x (show_menu s)"
  by (simp_all add: output_eqs with_store_def)

lemma with_store_async:
  "emscripten_async_call f ms (with_store m x s) = with_store m x (emscripten_async_call f ms s)"
  by (simp add: emscripten_async_call_def with_store_def)

lemma with_store_led_blink_from:
  "led_blink_from i n d (with_store m x s) = with_store m x (led_blink_from i n d s)"
proof (induction i n d s rule: led_blink_from.induct)
  case (1 i n d s)
  show ?case
  proof (cases "i < n")
    case True
    with "1.IH" [OF True] show ?thesis
      by (simp add: led_blink_from.simps [of i n d] with_store_async)
  next
    case False
    then show ?thesis by (simp add: led_blink_from.simps [of i n d])
  qed
qed

lemma with_store_led_blink [simp]:
  "led_blink n d (with_store m x s) = with_store m x (led_blink n d s)"
  by (simp add: led_blink_def with_store_led_blink_from)

lemma with_store_run_callback:
  "run_callback ev (with_store m x s) = with_store m x (run_callback ev s)"
  by (cases ev)
     (simp_all add: with_store_def wasm_touch_event_def wasm_nfc_tag_def wasm_nfc_tag_removed_def
        emscripten_async_call_def js_call_def Let_def system_millis_def js_system_millis_def)

lemma with_store_host_event_loop:
  "host_event_loop until (with_store m x s) = with_store m x (host_event_loop until s)"
proof (induction until s rule: host_event_loop.induct)
  case (1 until s)
  show ?case
  proof (cases "pending s")
    case Nil
    then show ?thesis
      by (simp add: host_event_loop.simps [of until s] host_event_loop.simps [of until "with_store m x s"])
  next
    case (Cons p rest)
    obtain due ev where p: "p = (due, ev)" by (cases p)
    show ?thesis
    proof (cases "due \<le> until")
      case False
      then show ?thesis using Cons p
        by (simp add: host_event_loop.simps [of until s] host_event_loop.simps [of until "with_store m x s"])
    next
      case True
      have e: "with_store m x s\<lparr>pending := rest, clock := max (clock s) due\<rparr> =
               with_store m x (s\<lparr>pending := rest, clock := max (clock s) due\<rparr>)"
        by (simp add: with_store_def)
      from "1.IH" [OF Cons p [symmetric] True] show ?thesis using Cons p True
        by (simp add: host_event_loop.simps [of until s] host_event_loop.simps [of until "with_store m x s"]
              e with_store_run_callback)
    qed
  qed
qed

lemma with_store_system_delay [simp]:
  "system_delay ms (with_store m x s) = with_store m x (system_delay ms s)"
  by (simp add: system_delay_def emscripten_sleep_def Let_def with_store_host_event_loop)

lemma with_store_buzzer_success [simp]:
  "buzzer_success (with_store m x s) = with_store m x (buzzer_success s)"
  by (simp add: buzzer_success_def Let_def)

lemma with_store_rainbow_from [simp]:
  "rainbow_from i (with_store m x s) = with_store m x (rainbow_from i s)"
proof (induction i s rule: rainbow_from.induct)
  case (1 i s)
  show ?case
  proof (cases "i < 10")
    case True
    with "1.IH" [OF True] show ?thesis
      by (simp add: rainbow_from.simps [of i] Let_def)
  next
    case False
    then show ?thesis by (simp add: rainbow_from.simps [of i])
  qed
qed

lemma with_store_pulse_from [simp]:
  "pulse_from i (with_store m x s) = with_store m x (pulse_from i s)"
proof (induction i s rule: pulse_from.induct)
  case (1 i s)
  show ?case
  proof (cases "i < 5")
    case True
    with "1.IH" [OF True] show ?thesis
      by (simp add: pulse_from.simps [of i] Let_def)
  next
    case False
    then show ?thesis by (simp add: pulse_from.simps [of i])
  qed
qed

lemma with_store_storage_save [simp]:
  "snd (storage_save key data len (with_store m x s)) =
     with_store (if len \<noteq> 0 \<and> (case x of [] \<Rightarrow> True | b # bs \<Rightarrow> b)
                 then m(key \<mapsto> take (unat len) data) else m)
                (if len = 0 then x else tl x)
                (snd (storage_save key data len s))"
  by (cases "len = 0") (simp_all add: storage_save_eq storage_save_none with_store_def next_save_ok_def)

section \<open>Ritual dispatch\<close>

lemma ends_ready_save_moment:
  "display_initialized s \<Longrightarrow>
   \<exists>pre. trace (execute_save_moment u s) = pre @ ready_screen (label (current_ritual s))"
  by (simp add: execute_save_moment_def Let_def)

lemma ends_ready_send_tip:
  "display_initialized s \<Longrightarrow>
   \<exists>pre. trace (execute_send_tip u s) = pre @ ready_screen (label (current_ritual s))"
  by (simp add: execute_send_tip_def Let_def)

lemma ends_ready_vote:
  "display_initialized s \<Longrightarrow>
   \<exists>pre. trace (execute_vote u a s) = pre @ ready_screen (label (current_ritual s))"
  by (cases a) (simp_all add: execute_vote_def Let_def)

lemma ends_ready_increment_counter:
  "display_initialized s \<Longrightarrow>
   \<exists>pre. trace (execute_increment_counter u s) = pre @ ready_screen (label (current_ritual s))"
  by (simp add: execute_increment_counter_def Let_def)

lemma ends_ready_trigger_light:
  "display_initialized s \<Longrightarrow>
   \<exists>pre. trace (execute_trigger_light u s) = pre @ ready_screen (label (current_ritual s))"
  by (simp add: execute_trigger_light_def Let_def)

lemma ends_ready_unlock_content:
  "display_initialized s \<Longrightarrow>
   \<exists>pre. trace (execute_unlock_content u s) = pre @ ready_screen (label (current_ritual s))"
  by (simp add: execute_unlock_content_def Let_def)

lemma script_blind_save_moment:
  "trace (execute_save_moment u (with_store (storage s) x s)) = trace (execute_save_moment u s)"
  by (simp add: execute_save_moment_def Let_def)

lemma script_blind_send_tip:
  "trace (execute_send_tip u (with_store (storage s) x s)) = trace (execute_send_tip u s)"
  by (simp add: execute_send_tip_def Let_def)

lemma script_blind_vote:
  "trace (execute_vote u a (with_store (storage s) x s)) = trace (execute_vote u a s)"
  by (cases a) (simp_all add: execute_vote_def Let_def)

lemma script_blind_increment_counter:
  "trace (execute_increment_counter u (with_store (storage s) x s)) = trace (execute_increment_counter u s)"
  by (simp add: execute_increment_counter_def Let_def storage_load_def js_storage_load_def)

lemma script_blind_trigger_light:
  "trace (execute_trigger_light u (with_store (storage s) x s)) = trace (execute_trigger_light u s)"
  by (simp add: execute_trigger_light_def Let_def)

lemma script_blind_unlock_content:
  "trace (execute_unlock_content u (with_store (storage s) x s)) = trace (execute_unlock_content u s)"
  by (simp add: execute_unlock_content_def Let_def)

lemmas ritual_behavior_defs =
  RITUAL_SAVE_MOMENT_def RITUAL_SEND_TIP_def RITUAL_VOTE_A_def RITUAL_VOTE_B_def
  RITUAL_UNLOCK_CONTENT_def RITUAL_TRIGGER_LIGHT_def RITUAL_PLAY_SOUND_def
  RITUAL_INCREMENT_COUNTER_def RITUAL_CUSTOM_def

lemma ends_ready_unknown:
  assumes "behavior (current_ritual s) \<notin> {RITUAL_SAVE_MOMENT, RITUAL_SEND_TIP, RITUAL_VOTE_A,
             RITUAL_VOTE_B, RITUAL_INCREMENT_COUNTER, RITUAL_TRIGGER_LIGHT, RITUAL_UNLOCK_CONTENT}"
  shows "execute_ritual_behavior u s =
           show_ready_screen (system_delay 1000 (show_status_message ''Unknown behavior'' s))"
  using assms by (simp add: execute_ritual_behavior_def Let_def)

lemma setup_fw_power_on:
  "display_initialized (setup_fw (power_on t script saves))"
  "nfc_initialized (setup_fw (power_on t script saves))"
  "touch_initialized (setup_fw (power_on t script saves))"
  "ritual_initialized (setup_fw (power_on t script saves))"
  "current_ritual (setup_fw (power_on t script saves)) =
     \<lparr>node_id = ''default-node'', label = ''Default Ritual'', behavior = RITUAL_SAVE_MOMENT,
      tip_amount = 0x40A00000, vote_option = ''Option A'', counter_name = ''default_counter'',
      light_pattern = ''rainbow'', sound_file = ''beep.wav''\<rparr>"
  "last_nfc_check (setup_fw (power_on t script saves)) = 0"
  "last_uid (setup_fw (power_on t script saves)) = []"
  "last_touch_time (setup_fw (power_on t script saves)) = 0"
  "touch_queue (setup_fw (power_on t script saves)) = []"
  "nfc_queue (setup_fw (power_on t script saves)) = []"
  "clock (setup_fw (power_on t script saves)) = t"
  "pending (setup_fw (power_on t script saves)) = script"
  "storage (setup_fw (power_on t script saves)) = Map.empty"
  "save_script (setup_fw (power_on t script saves)) = saves"
  by (simp_all add: setup_fw_def power_on_def Let_def display_init_def nfc_init_def touch_init_def
        js_call_def)

text \<open>
  C7. Whatever the behavior value of the live configuration, \<open>execute_ritual_behavior\<close>
  returns, and on an initialized display the last thing it has drawn is the ready screen
  with the configured label. The outcomes of the saves do not matter: with any other
  script of save results (for instance all failures) the dispatch makes exactly the same
  calls to the host, in the same order, so nothing is retried and no feedback or display
  call changes. For a behavior value outside the seven that the switch handles, the calls
  are the status screen "Unknown behavior", then only LED timer output while it waits,
  then the ready screen; the store is not touched.
\<close>

theorem dispatch_always_restores_ready:
  "(display_initialized s \<longrightarrow>
      (\<exists>pre. trace (execute_ritual_behavior uid_str s) = pre @ ready_screen (label (current_ritual s)))) \<and>
   trace (execute_ritual_behavior uid_str (s\<lparr>save_script := x\<rparr>)) =
     trace (execute_ritual_behavior uid_str s) \<and>
   (behavior (current_ritual s) \<notin> {RITUAL_SAVE_MOMENT, RITUAL_SEND_TIP, RITUAL_VOTE_A,
        RITUAL_VOTE_B, RITUAL_INCREMENT_COUNTER, RITUAL_TRIGGER_LIGHT, RITUAL_UNLOCK_CONTENT} \<and>
    display_initialized s \<longrightarrow>
      (\<exists>leds. trace (execute_ritual_behavior uid_str s) =
         trace s @ status_screen (label (current_ritual s)) ''Unknown behavior'' @ map JsLedSet leds @
         ready_screen (label (current_ritual s))) \<and>
      storage (execute_ritual_behavior uid_str s) = storage s)"
proof (intro conjI impI)
  assume "display_initialized s"
  then show "\<exists>pre. trace (execute_ritual_behavior uid_str s) = pre @ ready_screen (label (current_ritual s))"
    using ends_ready_save_moment [of s uid_str] ends_ready_send_tip [of s uid_str]
      ends_ready_vote [of s uid_str] ends_ready_increment_counter [of s uid_str]
      ends_ready_trigger_light [of s uid_str] ends_ready_unlock_content [of s uid_str]
    by (simp add: execute_ritual_behavior_def Let_def)
next
  have e: "s\<lparr>save_script := x\<rparr> = with_store (storage s) x s"
    by (simp add: with_store_def)
  show "trace (execute_ritual_behavior uid_str (s\<lparr>save_script := x\<rparr>)) =
          trace (execute_ritual_behavior uid_str s)"
    unfolding e
    by (simp add: execute_ritual_behavior_def Let_def script_blind_save_moment script_blind_send_tip
          script_blind_vote script_blind_increment_counter script_blind_trigger_light
          script_blind_unlock_content)
next
  assume a: "behavior (current_ritual s) \<notin> {RITUAL_SAVE_MOMENT, RITUAL_SEND_TIP, RITUAL_VOTE_A,
        RITUAL_VOTE_B, RITUAL_INCREMENT_COUNTER, RITUAL_TRIGGER_LIGHT, RITUAL_UNLOCK_CONTENT} \<and>
      display_initialized s"
  let ?m = "show_status_message ''Unknown behavior'' s"
  from system_delay_effect [of 1000 ?m]
  obtain leds where "trace (system_delay 1000 ?m) = trace ?m @ map JsLedSet leds" by blast
  with a have "trace (execute_ritual_behavior uid_str s) =
         trace s @ status_screen (label (current_ritual s)) ''Unknown behavior'' @ map JsLedSet leds @
         ready_screen (label (current_ritual s))"
    by (simp add: ends_ready_unknown)
  then show "\<exists>leds. trace (execute_ritual_behavior uid_str s) =
         trace s @ status_screen (label (current_ritual s)) ''Unknown behavior'' @ map JsLedSet leds @
         ready_screen (label (current_ritual s))" ..
  from a show "storage (execute_ritual_behavior uid_str s) = storage s"
    by (simp add: ends_ready_unknown)
qed

theorem dispatch_always_restores_ready_witness:
  "display_initialized (setup_fw (power_on 1000 [] [])\<lparr>current_ritual :=
      current_ritual (setup_fw (power_on 1000 [] []))\<lparr>behavior := RITUAL_CUSTOM\<rparr>\<rparr>) \<and>
   RITUAL_CUSTOM \<notin> {RITUAL_SAVE_MOMENT, RITUAL_SEND_TIP, RITUAL_VOTE_A,
        RITUAL_VOTE_B, RITUAL_INCREMENT_COUNTER, RITUAL_TRIGGER_LIGHT, RITUAL_UNLOCK_CONTENT} \<and>
   (\<exists>pre. trace (execute_ritual_behavior ''AABB'' (setup_fw (power_on 1000 [] [])\<lparr>current_ritual :=
      current_ritual (setup_fw (power_on 1000 [] []))\<lparr>behavior := RITUAL_CUSTOM\<rparr>\<rparr>)) =
      pre @ ready_screen ''Default Ritual'') \<and>
   storage (execute_ritual_behavior ''AABB'' (setup_fw (power_on 1000 [] [])\<lparr>current_ritual :=
      current_ritual (setup_fw (power_on 1000 [] []))\<lparr>behavior := RITUAL_CUSTOM\<rparr>\<rparr>)) = Map.empty"
proof -
  let ?s = "setup_fw (power_on 1000 [] [])\<lparr>current_ritual :=
      current_ritual (setup_fw (power_on 1000 [] []))\<lparr>behavior := RITUAL_CUSTOM\<rparr>\<rparr>"
  have d: "display_initialized ?s" by (simp add: setup_fw_power_on)
  have b: "behavior (current_ritual ?s) = RITUAL_CUSTOM" by simp
  have n: "RITUAL_CUSTOM \<notin> {RITUAL_SAVE_MOMENT, RITUAL_SEND_TIP, RITUAL_VOTE_A,
        RITUAL_VOTE_B, RITUAL_INCREMENT_COUNTER, RITUAL_TRIGGER_LIGHT, RITUAL_UNLOCK_CONTENT}"
    by (simp add: ritual_behavior_defs)
  have l: "label (current_ritual ?s) = ''Default Ritual''" by (simp add: setup_fw_power_on)
  have m: "storage ?s = Map.empty" by (simp add: setup_fw_power_on)
  from dispatch_always_restores_ready [of ?s "''AABB''" "[]"] d b n l m
  show ?thesis by simp
qed

section \<open>The counter\<close>

text \<open>
  The counter encoding in the spec's words: an unsigned 32-bit value in 4 bytes, most
  significant byte first. \<open>be32_bytes n\<close> are the four bytes of \<open>n\<close>, \<open>be32_value\<close> reads
  bytes back, and \<open>stored_counter\<close> is the value held under \<open>counter_name\<close>: 0 when the
  key is absent, and a shorter value read as if filled up with zero bytes.
\<close>

definition be32_bytes :: "nat \<Rightarrow> u8 list" where
  "be32_bytes n = [of_nat (n div 2 ^ 24), of_nat (n div 2 ^ 16), of_nat (n div 2 ^ 8), of_nat n]"

definition be32_value :: "u8 list \<Rightarrow> nat" where
  "be32_value bs = foldl (\<lambda>a b. a * 256 + unat b) 0 bs"

definition stored_counter :: "node \<Rightarrow> nat" where
  "stored_counter s =
     (case storage s (counter_name (current_ritual s)) of
        None \<Rightarrow> 0
      | Some d \<Rightarrow> be32_value (take 4 (d @ replicate 4 0)))"

lemma low_byte_mask: "(0xFF :: u32) = mask 8"
  by (simp add: mask_eq_exp_minus_1)

lemma counter_byte:
  "k + 8 \<le> 32 \<Longrightarrow> (ucast (drop_bit k (of_nat n :: u32) AND 0xFF) :: u8) = of_nat (n div 2 ^ k)"
  unfolding low_byte_mask drop_bit_eq_div [symmetric]
  by (rule bit_word_eqI) (auto simp: bit_simps)

lemma counter_encode: "bytes_of_count (of_nat n) = be32_bytes n"
  using counter_byte [of 24 n] counter_byte [of 16 n] counter_byte [of 8 n] counter_byte [of 0 n]
  by (simp add: be32_bytes_def bytes_of_count_def)

lemma counter_decode:
  fixes d0 d1 d2 d3 :: u8
  shows "count_of_bytes [d0, d1, d2, d3] = of_nat (be32_value [d0, d1, d2, d3])"
proof -
  have a: "push_bit 8 (ucast d2) OR ucast d3 = (push_bit 8 (ucast d2) + ucast d3 :: u32)"
    by (rule disjunctive_add [symmetric]) (auto simp: bit_simps dest: bit_imp_le_length)
  have b: "push_bit 16 (ucast d1) OR (push_bit 8 (ucast d2) OR ucast d3)
           = (push_bit 16 (ucast d1) + (push_bit 8 (ucast d2) OR ucast d3) :: u32)"
    by (rule disjunctive_add [symmetric]) (auto simp: bit_simps dest: bit_imp_le_length)
  have c: "push_bit 24 (ucast d0) OR (push_bit 16 (ucast d1) OR (push_bit 8 (ucast d2) OR ucast d3))
           = (push_bit 24 (ucast d0) + (push_bit 16 (ucast d1) OR (push_bit 8 (ucast d2) OR ucast d3)) :: u32)"
    by (rule disjunctive_add [symmetric]) (auto simp: bit_simps dest: bit_imp_le_length)
  have "count_of_bytes [d0, d1, d2, d3]
        = push_bit 24 (ucast d0) OR push_bit 16 (ucast d1) OR push_bit 8 (ucast d2) OR ucast d3"
    by (simp add: count_of_bytes_def)
  also have "\<dots> = push_bit 24 (ucast d0) + (push_bit 16 (ucast d1) + (push_bit 8 (ucast d2) + ucast d3))"
    by (subst c, subst b, subst a) (rule refl)
  also have "\<dots> = of_nat (be32_value [d0, d1, d2, d3])"
    by (simp add: push_bit_eq_mult be32_value_def algebra_simps)
  finally show ?thesis .
qed

lemma count_of_bytes_of_count: "count_of_bytes (bytes_of_count c) = c"
  unfolding count_of_bytes_def bytes_of_count_def low_byte_mask
proof (rule bit_word_eqI, goal_cases)
  case (1 i)
  then consider "i < 8" | "8 \<le> i" "i < 16" | "16 \<le> i" "i < 24" | "24 \<le> i" "i < 32"
    by fastforce
  then show ?case
    by cases (auto simp: bit_simps)
qed

lemma be32_value_bytes: "of_nat (be32_value (be32_bytes n)) = (of_nat n :: u32)"
proof -
  have "(of_nat (be32_value (be32_bytes n)) :: u32) = count_of_bytes (bytes_of_count (of_nat n))"
    unfolding counter_encode by (simp add: be32_bytes_def counter_decode)
  then show ?thesis by (simp add: count_of_bytes_of_count)
qed

lemma be32_bytes_cong: "(of_nat m :: u32) = of_nat n \<Longrightarrow> be32_bytes m = be32_bytes n"
  using counter_encode [of m] counter_encode [of n] by simp

text \<open>What \<open>execute_increment_counter\<close> finds in \<^verbatim>\<open>count_data\<close> after the load.\<close>

lemma load_into_four: "\<exists>d0 d1 d2 d3. load_into [0, 0, 0, 0] (take 4 d) = [d0, d1, d2, d3] \<and>
    take 4 (d @ replicate 4 0) = [d0, d1, d2, d3]"
proof (cases d)
  case Nil
  then show ?thesis by (simp add: load_into_def numeral_eq_Suc)
next
  case c1: (Cons a1 r1)
  show ?thesis
  proof (cases r1)
    case Nil
    with c1 show ?thesis by (simp add: load_into_def numeral_eq_Suc)
  next
    case c2: (Cons a2 r2)
    show ?thesis
    proof (cases r2)
      case Nil
      with c1 c2 show ?thesis by (simp add: load_into_def numeral_eq_Suc)
    next
      case c3: (Cons a3 r3)
      show ?thesis
      proof (cases r3)
        case Nil
        with c1 c2 c3 show ?thesis by (simp add: load_into_def numeral_eq_Suc)
      next
        case (Cons a4 r4)
        with c1 c2 c3 show ?thesis by (simp add: load_into_def numeral_eq_Suc)
      qed
    qed
  qed
qed

lemma counter_loaded:
  "\<exists>d0 d1 d2 d3.
     load_into [0, 0, 0, 0] (snd (storage_load (counter_name (current_ritual s)) 4 s)) = [d0, d1, d2, d3] \<and>
     be32_value [d0, d1, d2, d3] = stored_counter s"
proof (cases "storage s (counter_name (current_ritual s))")
  case None
  then have "load_into [0, 0, 0, 0] (snd (storage_load (counter_name (current_ritual s)) 4 s)) = [0, 0, 0, 0]"
    by (simp add: storage_load_def js_storage_load_def load_into_def)
  moreover have "be32_value [0, 0, 0, 0] = stored_counter s"
    using None by (simp add: stored_counter_def be32_value_def)
  ultimately show ?thesis by blast
next
  case (Some d)
  from load_into_four [of d] obtain d0 d1 d2 d3
    where l: "load_into [0, 0, 0, 0] (take 4 d) = [d0, d1, d2, d3]"
      and t: "take 4 (d @ replicate 4 0) = [d0, d1, d2, d3]" by blast
  have "load_into [0, 0, 0, 0] (snd (storage_load (counter_name (current_ritual s)) 4 s)) = [d0, d1, d2, d3]"
    using Some l by (simp add: storage_load_def js_storage_load_def)
  moreover have "be32_value [d0, d1, d2, d3] = stored_counter s"
    using Some t by (simp add: stored_counter_def)
  ultimately show ?thesis by blast
qed

lemma next_save_ok_cong: "save_script t = save_script s \<Longrightarrow> next_save_ok t = next_save_ok s"
  by (simp add: next_save_ok_def)

lemma next_save_ok_unchanged [simp]:
  "next_save_ok (show_status_message m s) = next_save_ok s"
  "next_save_ok (debug_printf m s) = next_save_ok s"
  by (simp_all add: next_save_ok_def)

lemma no_saves_in_screens [simp]:
  "filter is_save (status_screen l m) = []" "filter is_save (ready_screen l) = []"
  "filter is_save menu_screen = []"
  by (simp_all add: status_screen_def ready_screen_def menu_screen_def)

lemma increment_counter_store:
  "storage (execute_increment_counter u s) =
     (if next_save_ok s
      then (storage s)(counter_name (current_ritual s) \<mapsto> be32_bytes (stored_counter s + 1))
      else storage s) \<and>
   save_script (execute_increment_counter u s) = tl (save_script s) \<and>
   filter is_save (trace (execute_increment_counter u s)) =
     filter is_save (trace s) @
     [JsStorageSave (counter_name (current_ritual s)) (be32_bytes (stored_counter s + 1))]"
proof -
  have l: "storage_load key 4 (show_status_message m1 (debug_printf m2 s)) = storage_load key 4 s"
    for key m1 m2
    by (simp add: storage_load_def js_storage_load_def)
  from counter_loaded [of s] obtain d0 d1 d2 d3
    where c: "load_into [0, 0, 0, 0] (snd (storage_load (counter_name (current_ritual s)) 4 s)) = [d0, d1, d2, d3]"
      and v: "be32_value [d0, d1, d2, d3] = stored_counter s" by blast
  have n: "(of_nat (stored_counter s) + 1 :: u32) = of_nat (stored_counter s + 1)" by simp
  have b: "take 4 (be32_bytes k) = be32_bytes k" for k by (simp add: be32_bytes_def)
  show ?thesis
    by (simp add: execute_increment_counter_def Let_def l c counter_decode v n counter_encode b
          del: of_nat_add of_nat_Suc)
qed

lemma increment_counter_frame [simp]:
  "current_ritual (execute_increment_counter u s) = current_ritual s"
  by (simp add: execute_increment_counter_def Let_def)

lemma stored_counter_after:
  assumes "storage t (counter_name (current_ritual t)) = Some (be32_bytes k)"
  shows "(of_nat (stored_counter t) :: u32) = of_nat k"
proof -
  have "take 4 (be32_bytes k @ replicate 4 0) = be32_bytes k"
    by (simp add: be32_bytes_def)
  with assms have "stored_counter t = be32_value (be32_bytes k)"
    by (simp add: stored_counter_def)
  then show ?thesis by (simp add: be32_value_bytes)
qed

lemma be32_value_less: "be32_value [d0, d1, d2, d3] < 2 ^ 32"
proof -
  have "unat d0 \<le> 255" "unat d1 \<le> 255" "unat d2 \<le> 255" "unat d3 \<le> 255"
    using unsigned_less [of d0, where ?'a = nat] unsigned_less [of d1, where ?'a = nat]
      unsigned_less [of d2, where ?'a = nat] unsigned_less [of d3, where ?'a = nat]
    by simp_all
  then show ?thesis
    by (simp add: be32_value_def)
qed

lemma be32_roundtrip:
  assumes "n < 2 ^ 32"
  shows "be32_value (be32_bytes n) = n"
proof -
  have "be32_value (be32_bytes n) < 2 ^ 32"
    unfolding be32_bytes_def by (rule be32_value_less)
  moreover have "unat (of_nat (be32_value (be32_bytes n)) :: u32) = unat (of_nat n :: u32)"
    by (simp add: be32_value_bytes)
  ultimately show ?thesis
    using assms by (simp add: unat_of_nat)
qed

text \<open>
  How many of the next \<open>n\<close> saves the host accepts, given the outcomes still scripted;
  once the script is used up every save is accepted.
\<close>

fun saves_accepted :: "nat \<Rightarrow> bool list \<Rightarrow> nat" where
  "saves_accepted 0 oks = 0"
| "saves_accepted (Suc n) [] = Suc n"
| "saves_accepted (Suc n) (ok # oks) = (if ok then 1 else 0) + saves_accepted n oks"

lemma saves_accepted_nil [simp]: "saves_accepted n [] = n"
  by (cases n) simp_all

lemma saves_accepted_all:
  "list_all (\<lambda>ok. ok) (take n oks) \<Longrightarrow> saves_accepted n oks = n"
  by (induction n oks rule: saves_accepted.induct) simp_all

lemma saves_accepted_next:
  "saves_accepted (Suc n) (save_script s) =
     (if next_save_ok s then 1 else 0) + saves_accepted n (tl (save_script s))"
  by (cases "save_script s") (simp_all add: next_save_ok_def)

lemma be32_value_mod: "be32_value (be32_bytes n) = n mod 2 ^ 32"
proof -
  have "be32_value (be32_bytes n) < 2 ^ 32"
    unfolding be32_bytes_def by (rule be32_value_less)
  moreover have "unat (of_nat (be32_value (be32_bytes n)) :: u32) = unat (of_nat n :: u32)"
    by (simp add: be32_value_bytes)
  ultimately show ?thesis
    by (simp add: unat_of_nat)
qed

lemma increment_counter_run:
  assumes "behavior (current_ritual s) = RITUAL_INCREMENT_COUNTER"
    and "(of_nat (stored_counter s) :: u32) = of_nat k"
  shows "storage (fold execute_ritual_behavior us s) (counter_name (current_ritual s)) =
           (if saves_accepted (length us) (save_script s) = 0
            then storage s (counter_name (current_ritual s))
            else Some (be32_bytes (k + saves_accepted (length us) (save_script s))))"
  using assms
proof (induction us arbitrary: s k)
  case Nil
  then show ?case by simp
next
  case (Cons u us)
  let ?t = "execute_ritual_behavior u s"
  let ?key = "counter_name (current_ritual s)"
  have e: "?t = execute_increment_counter u s"
    using Cons.prems(1) by (simp add: execute_ritual_behavior_def ritual_behavior_defs)
  have c: "current_ritual ?t = current_ritual s" by (simp add: e)
  have 1: "behavior (current_ritual ?t) = RITUAL_INCREMENT_COUNTER"
    using Cons.prems(1) c by simp
  have sc: "save_script ?t = tl (save_script s)"
    using increment_counter_store [of u s] by (simp add: e)
  have "(of_nat (stored_counter s + 1) :: u32) = of_nat (k + 1)"
    using Cons.prems(2) by simp
  then have b: "be32_bytes (stored_counter s + 1) = be32_bytes (k + 1)"
    by (rule be32_bytes_cong)
  note n = saves_accepted_next [of "length us" s]
  show ?case
  proof (cases "next_save_ok s")
    case True
    then have st: "storage ?t ?key = Some (be32_bytes (k + 1))"
      using increment_counter_store [of u s] b by (simp add: e)
    have "storage ?t (counter_name (current_ritual ?t)) = Some (be32_bytes (k + 1))"
      using st c by simp
    then have 2: "(of_nat (stored_counter ?t) :: u32) = of_nat (k + 1)"
      by (rule stored_counter_after)
    from Cons.IH [OF 1 2] c sc st n True show ?thesis by simp
  next
    case False
    then have st: "storage ?t = storage s"
      using increment_counter_store [of u s] by (simp add: e)
    have 2: "(of_nat (stored_counter ?t) :: u32) = of_nat k"
      using Cons.prems(2) c st by (simp add: stored_counter_def)
    from Cons.IH [OF 1 2] c sc st n False show ?thesis by simp
  qed
qed

text \<open>
  C2, as the code has it. With the behavior IncrementCounter, an activation reads the
  4-byte big-endian counter stored under \<open>counter_name\<close> (0 when the key is absent), adds
  1 to it as an unsigned 32-bit number, and asks the host to save the new value, 4 bytes
  big-endian, under the same key. The store holds the new value when the host accepts
  that save and is unchanged when the host refuses it. So, starting from an absent key,
  after \<open>N\<close> activations in a row the store holds the number of saves that the host
  accepted among the \<open>N\<close>, as 4 big-endian bytes and modulo \<open>2^32\<close>, and the key is
  still absent when none was accepted. When the host accepts all \<open>N\<close> saves that number
  is \<open>N\<close>.
\<close>

theorem increment_counter_counts:
  "behavior (current_ritual s) = RITUAL_INCREMENT_COUNTER \<longrightarrow>
     filter is_save (trace (execute_ritual_behavior u s)) =
       filter is_save (trace s) @
       [JsStorageSave (counter_name (current_ritual s)) (be32_bytes (stored_counter s + 1))] \<and>
     storage (execute_ritual_behavior u s) =
       (if next_save_ok s
        then (storage s)(counter_name (current_ritual s) \<mapsto> be32_bytes (stored_counter s + 1))
        else storage s) \<and>
     (storage s (counter_name (current_ritual s)) = None \<longrightarrow>
        storage (fold execute_ritual_behavior us s) (counter_name (current_ritual s)) =
          (if saves_accepted (length us) (save_script s) = 0 then None
           else Some (be32_bytes (saves_accepted (length us) (save_script s)))) \<and>
        (list_all (\<lambda>ok. ok) (take (length us) (save_script s)) \<longrightarrow>
           saves_accepted (length us) (save_script s) = length us)) \<and>
     be32_value (be32_bytes n) = n mod 2 ^ 32"
proof (intro impI conjI)
  assume b: "behavior (current_ritual s) = RITUAL_INCREMENT_COUNTER"
  then have e: "execute_ritual_behavior u s = execute_increment_counter u s"
    by (simp add: execute_ritual_behavior_def ritual_behavior_defs)
  show "filter is_save (trace (execute_ritual_behavior u s)) =
       filter is_save (trace s) @
       [JsStorageSave (counter_name (current_ritual s)) (be32_bytes (stored_counter s + 1))]"
    using increment_counter_store [of u s] by (simp add: e)
  show "storage (execute_ritual_behavior u s) =
       (if next_save_ok s
        then (storage s)(counter_name (current_ritual s) \<mapsto> be32_bytes (stored_counter s + 1))
        else storage s)"
    using increment_counter_store [of u s] by (simp add: e)
  show "be32_value (be32_bytes n) = n mod 2 ^ 32"
    by (rule be32_value_mod)
  {
    assume "list_all (\<lambda>ok. ok) (take (length us) (save_script s))"
    then show "saves_accepted (length us) (save_script s) = length us"
      by (rule saves_accepted_all)
  }
  assume a: "storage s (counter_name (current_ritual s)) = None"
  then have z: "(of_nat (stored_counter s) :: u32) = of_nat 0"
    by (simp add: stored_counter_def)
  from increment_counter_run [OF b z, of us] a
  show "storage (fold execute_ritual_behavior us s) (counter_name (current_ritual s)) =
          (if saves_accepted (length us) (save_script s) = 0 then None
           else Some (be32_bytes (saves_accepted (length us) (save_script s))))"
    by simp
qed

lemma be32_bytes_small:
  "be32_bytes (Suc 0) = [0, 0, 0, 1]" "be32_bytes (Suc (Suc 0)) = [0, 0, 0, 2]"
  "be32_bytes (Suc (Suc (Suc 0))) = [0, 0, 0, 3]"
  unfolding numeral_3_eq_3 [symmetric] numeral_2_eq_2 [symmetric] One_nat_def [symmetric]
  by (simp_all add: be32_bytes_def)

theorem increment_counter_counts_witness:
  "behavior (current_ritual (setup_fw (power_on 1000 [] [True, False])\<lparr>current_ritual :=
      current_ritual (setup_fw (power_on 1000 [] [True, False]))\<lparr>behavior := RITUAL_INCREMENT_COUNTER\<rparr>\<rparr>)) =
     RITUAL_INCREMENT_COUNTER \<and>
   storage (setup_fw (power_on 1000 [] [True, False])\<lparr>current_ritual :=
      current_ritual (setup_fw (power_on 1000 [] [True, False]))\<lparr>behavior := RITUAL_INCREMENT_COUNTER\<rparr>\<rparr>)
     ''default_counter'' = None \<and>
   next_save_ok (setup_fw (power_on 1000 [] [True, False])\<lparr>current_ritual :=
      current_ritual (setup_fw (power_on 1000 [] [True, False]))\<lparr>behavior := RITUAL_INCREMENT_COUNTER\<rparr>\<rparr>) \<and>
   list_all (\<lambda>ok. ok) (take (length [''AABB''])
     (save_script (setup_fw (power_on 1000 [] [True, False])\<lparr>current_ritual :=
      current_ritual (setup_fw (power_on 1000 [] [True, False]))\<lparr>behavior := RITUAL_INCREMENT_COUNTER\<rparr>\<rparr>))) \<and>
   storage (execute_ritual_behavior ''AABB'' (setup_fw (power_on 1000 [] [True, False])\<lparr>current_ritual :=
      current_ritual (setup_fw (power_on 1000 [] [True, False]))\<lparr>behavior := RITUAL_INCREMENT_COUNTER\<rparr>\<rparr>))
     ''default_counter'' = Some [0, 0, 0, 1] \<and>
   storage (fold execute_ritual_behavior [''AABB'']
     (setup_fw (power_on 1000 [] [True, False])\<lparr>current_ritual :=
      current_ritual (setup_fw (power_on 1000 [] [True, False]))\<lparr>behavior := RITUAL_INCREMENT_COUNTER\<rparr>\<rparr>))
     ''default_counter'' = Some [0, 0, 0, 1]"
proof -
  let ?s = "setup_fw (power_on 1000 [] [True, False])\<lparr>current_ritual :=
      current_ritual (setup_fw (power_on 1000 [] [True, False]))\<lparr>behavior := RITUAL_INCREMENT_COUNTER\<rparr>\<rparr>"
  have b: "behavior (current_ritual ?s) = RITUAL_INCREMENT_COUNTER" by simp
  have k: "counter_name (current_ritual ?s) = ''default_counter''" by (simp add: setup_fw_power_on)
  have n: "storage ?s ''default_counter'' = None" by (simp add: setup_fw_power_on)
  have sc: "save_script ?s = [True, False]" by (simp add: setup_fw_power_on)
  have o: "next_save_ok ?s" by (simp add: next_save_ok_def sc)
  have c: "stored_counter ?s = 0" by (simp add: stored_counter_def setup_fw_power_on)
  from increment_counter_counts [of ?s "''AABB''" "[''AABB'']"] b k n o c sc be32_bytes_small
  show ?thesis by simp
qed

theorem refused_save_counterexample:
  "behavior (current_ritual (setup_fw (power_on 1000 [] [False])\<lparr>current_ritual :=
      current_ritual (setup_fw (power_on 1000 [] [False]))\<lparr>behavior := RITUAL_INCREMENT_COUNTER\<rparr>\<rparr>)) =
     RITUAL_INCREMENT_COUNTER \<and>
   storage (setup_fw (power_on 1000 [] [False])\<lparr>current_ritual :=
      current_ritual (setup_fw (power_on 1000 [] [False]))\<lparr>behavior := RITUAL_INCREMENT_COUNTER\<rparr>\<rparr>)
     ''default_counter'' = None \<and>
   storage (fold execute_ritual_behavior [''AABB'', ''AABB'']
     (setup_fw (power_on 1000 [] [False])\<lparr>current_ritual :=
      current_ritual (setup_fw (power_on 1000 [] [False]))\<lparr>behavior := RITUAL_INCREMENT_COUNTER\<rparr>\<rparr>))
     ''default_counter'' = Some [0, 0, 0, 1] \<and>
   be32_bytes 2 = [0, 0, 0, 2]"
proof -
  let ?s = "setup_fw (power_on 1000 [] [False])\<lparr>current_ritual :=
      current_ritual (setup_fw (power_on 1000 [] [False]))\<lparr>behavior := RITUAL_INCREMENT_COUNTER\<rparr>\<rparr>"
  have b: "behavior (current_ritual ?s) = RITUAL_INCREMENT_COUNTER" by simp
  have k: "counter_name (current_ritual ?s) = ''default_counter''" by (simp add: setup_fw_power_on)
  have n: "storage ?s ''default_counter'' = None" by (simp add: setup_fw_power_on)
  have sc: "save_script ?s = [False]" by (simp add: setup_fw_power_on)
  have z: "(of_nat (stored_counter ?s) :: u32) = of_nat 0"
    by (simp add: stored_counter_def setup_fw_power_on)
  have "be32_bytes 2 = [0, 0, 0, 2]" by (simp add: be32_bytes_def)
  with increment_counter_run [OF b z, of "[''AABB'', ''AABB'']"] b k n sc be32_bytes_small
  show ?thesis by simp
qed

section \<open>Host input and the queues\<close>

fun is_tag_event :: "host_event \<Rightarrow> bool" where
  "is_tag_event (WasmNfcTag uid uid_length ndef ndef_length) = True"
| "is_tag_event WasmNfcTagRemoved = True"
| "is_tag_event ev = False"

fun is_touch_event :: "host_event \<Rightarrow> bool" where
  "is_touch_event (WasmTouchEvent x y type timestamp) = True"
| "is_touch_event ev = False"

text \<open>\<open>quiet_on B s\<close>: none of the host events still to come is of kind \<open>B\<close>.\<close>

definition quiet_on :: "(host_event \<Rightarrow> bool) \<Rightarrow> node \<Rightarrow> bool" where
  "quiet_on B s \<longleftrightarrow> list_all (\<lambda>p. \<not> B (snd p)) (pending s)"

text \<open>
  \<open>tag_neutral s t\<close>: from \<open>s\<close> to \<open>t\<close> nothing that the tag part of \<^verbatim>\<open>loop\<close> depends on
  has changed and no ritual was dispatched, as long as the host sends no tag event.
  \<open>touch_kept s t\<close>: the touch queue is as it was, as long as the host sends no touch.
\<close>

definition tag_neutral :: "node \<Rightarrow> node \<Rightarrow> bool" where
  "tag_neutral s t \<longleftrightarrow> nfc_initialized t = nfc_initialized s \<and> last_uid t = last_uid s \<and>
     activations t = activations s \<and>
     (quiet_on is_tag_event s \<longrightarrow> quiet_on is_tag_event t \<and> nfc_queue t = nfc_queue s)"

definition touch_kept :: "node \<Rightarrow> node \<Rightarrow> bool" where
  "touch_kept s t \<longleftrightarrow>
     (quiet_on is_touch_event s \<longrightarrow> quiet_on is_touch_event t \<and> touch_queue t = touch_queue s)"

lemma list_all_schedule:
  "list_all P (schedule e ps) \<longleftrightarrow> P e \<and> list_all P ps"
  by (induction ps) auto

lemma quiet_on_async:
  "\<not> B f \<Longrightarrow> quiet_on B (emscripten_async_call f ms s) = quiet_on B s"
  by (simp add: quiet_on_def emscripten_async_call_def list_all_schedule)

lemma quiet_on_led_blink_from:
  "\<not> B (LedOnTimer d) \<Longrightarrow> quiet_on B (led_blink_from i n d s) = quiet_on B s"
proof (induction i n d s rule: led_blink_from.induct)
  case (1 i n d s)
  show ?case
  proof (cases "i < n")
    case True
    with "1.IH" [OF True "1.prems"] "1.prems" show ?thesis
      by (simp add: led_blink_from.simps [of i n d s] quiet_on_async)
  next
    case False
    then show ?thesis by (simp add: led_blink_from.simps [of i n d s])
  qed
qed

lemma quiet_on_led_blink:
  "\<not> B (LedOnTimer d) \<Longrightarrow> quiet_on B (led_blink n d s) = quiet_on B s"
  by (simp add: led_blink_def quiet_on_led_blink_from)

lemma quiet_on_trace [simp]: "quiet_on B (s\<lparr>trace := X\<rparr>) = quiet_on B s"
  by (simp add: quiet_on_def)

lemma quiet_on_output [simp]:
  "quiet_on B (debug_printf m s) = quiet_on B s"
  "quiet_on B (led_set on s) = quiet_on B s"
  "quiet_on B (buzzer_tone f d s) = quiet_on B s"
  "quiet_on B (show_status_message m s) = quiet_on B s"
  "quiet_on B (show_ready_screen s) = quiet_on B s"
  "quiet_on B (show_menu s) = quiet_on B s"
  "quiet_on B (snd (storage_save key data len s)) = quiet_on B s"
  "quiet_on B (snd (touch_read s)) = quiet_on B s"
  by (simp_all add: quiet_on_def touch_read_def)

text \<open>One callback: it leaves a queue alone unless it is an input event for that queue.\<close>

lemma run_callback_queues:
  "nfc_initialized (run_callback ev s) = nfc_initialized s"
  "last_uid (run_callback ev s) = last_uid s"
  "\<not> is_tag_event ev \<Longrightarrow> nfc_queue (run_callback ev s) = nfc_queue s"
  "\<not> is_touch_event ev \<Longrightarrow> touch_queue (run_callback ev s) = touch_queue s"
  by (cases ev; simp add: wasm_touch_event_def wasm_nfc_tag_def wasm_nfc_tag_removed_def
        emscripten_async_call_def js_call_def Let_def)+

lemma run_callback_quiet:
  assumes "\<And>d. \<not> B (LedOnTimer d)" and "\<not> B LedOffTimer"
  shows "quiet_on B (run_callback ev s) = quiet_on B s"
  using assms
  by (cases ev)
     (simp_all add: quiet_on_def wasm_touch_event_def wasm_nfc_tag_def wasm_nfc_tag_removed_def
        emscripten_async_call_def js_call_def Let_def list_all_schedule)

lemma host_event_loop_quiet:
  assumes B: "\<And>d. \<not> B (LedOnTimer d)" "\<not> B LedOffTimer" and q: "quiet_on B s"
  shows "quiet_on B (host_event_loop until s) \<and>
         ((\<forall>ev. is_tag_event ev \<longrightarrow> B ev) \<longrightarrow> nfc_queue (host_event_loop until s) = nfc_queue s) \<and>
         ((\<forall>ev. is_touch_event ev \<longrightarrow> B ev) \<longrightarrow> touch_queue (host_event_loop until s) = touch_queue s)"
  using q
proof (induction until s rule: host_event_loop.induct)
  case (1 until s)
  show ?case
  proof (cases "pending s")
    case Nil
    then show ?thesis using "1.prems" by (simp add: host_event_loop.simps [of until s])
  next
    case (Cons p rest)
    obtain due ev where p: "p = (due, ev)" by (cases p)
    show ?thesis
    proof (cases "due \<le> until")
      case False
      then show ?thesis using Cons p "1.prems" by (simp add: host_event_loop.simps [of until s])
    next
      case True
      let ?s0 = "s\<lparr>pending := rest, clock := max (clock s) due\<rparr>"
      let ?s1 = "run_callback ev ?s0"
      have h: "host_event_loop until s = host_event_loop until ?s1"
        using Cons p True by (simp add: host_event_loop.simps [of until s])
      have nb: "\<not> B ev" and q0: "quiet_on B ?s0"
        using "1.prems" Cons p by (simp_all add: quiet_on_def)
      have q1: "quiet_on B ?s1"
        using q0 by (simp add: run_callback_quiet [OF B])
      have n: "(\<forall>ev. is_tag_event ev \<longrightarrow> B ev) \<longrightarrow> nfc_queue ?s1 = nfc_queue s"
      proof
        assume "\<forall>ev. is_tag_event ev \<longrightarrow> B ev"
        with nb have "\<not> is_tag_event ev" by blast
        then show "nfc_queue ?s1 = nfc_queue s" by (simp add: run_callback_queues)
      qed
      have t: "(\<forall>ev. is_touch_event ev \<longrightarrow> B ev) \<longrightarrow> touch_queue ?s1 = touch_queue s"
      proof
        assume "\<forall>ev. is_touch_event ev \<longrightarrow> B ev"
        with nb have "\<not> is_touch_event ev" by blast
        then show "touch_queue ?s1 = touch_queue s" by (simp add: run_callback_queues)
      qed
      from "1.IH" [OF Cons p [symmetric] True q1] n t show ?thesis
        unfolding h by simp
    qed
  qed
qed

lemma host_event_loop_tag_fields:
  "nfc_initialized (host_event_loop until s) = nfc_initialized s \<and>
   last_uid (host_event_loop until s) = last_uid s"
  using host_event_loop_effect [of until s] by (simp add: fw_frame_def)

lemma system_delay_quiet:
  assumes "\<And>d. \<not> B (LedOnTimer d)" "\<not> B LedOffTimer" "quiet_on B s"
  shows "quiet_on B (system_delay ms s)"
    and "(\<forall>ev. is_tag_event ev \<longrightarrow> B ev) \<Longrightarrow> nfc_queue (system_delay ms s) = nfc_queue s"
    and "(\<forall>ev. is_touch_event ev \<longrightarrow> B ev) \<Longrightarrow> touch_queue (system_delay ms s) = touch_queue s"
  using host_event_loop_quiet [OF assms, of "clock s + unat ms"]
  by (simp_all add: system_delay_def emscripten_sleep_def Let_def quiet_on_def)

lemma activations_system_delay [simp]: "activations (system_delay ms s) = activations s"
  by (simp add: activations_def)

lemma no_activation_in_screens [simp]:
  "filter is_activation (status_screen l m) = []" "filter is_activation (ready_screen l) = []"
  "filter is_activation menu_screen = []"
  by (simp_all add: status_screen_def ready_screen_def menu_screen_def)

lemma tag_neutral_refl: "tag_neutral s s"
  by (simp add: tag_neutral_def)

lemma tag_neutral_trans: "tag_neutral s t \<Longrightarrow> tag_neutral t u \<Longrightarrow> tag_neutral s u"
  by (auto simp: tag_neutral_def)

lemma tag_neutral_step:
  "\<not> prefix ''NFC tag detected: '' (take 511 m) \<Longrightarrow> tag_neutral s (debug_printf m s)"
  "tag_neutral s (show_status_message m s)"
  "tag_neutral s (show_ready_screen s)"
  "tag_neutral s (show_menu s)"
  "tag_neutral s (led_set on s)"
  "tag_neutral s (buzzer_tone f d s)"
  "tag_neutral s (snd (storage_save key data len s))"
  "tag_neutral s (snd (touch_read s))"
  "tag_neutral s (s\<lparr>last_touch_time := x\<rparr>)"
  by (simp_all add: tag_neutral_def activations_def touch_read_def quiet_on_def)

lemma tag_neutral_led_blink: "tag_neutral s (led_blink n d s)"
  by (simp add: tag_neutral_def activations_def quiet_on_led_blink)

lemma tag_neutral_system_delay: "tag_neutral s (system_delay ms s)"
  using system_delay_quiet [of is_tag_event s ms]
  by (simp add: tag_neutral_def)

lemma tag_neutral_then:
  assumes "tag_neutral s t"
  shows "\<not> prefix ''NFC tag detected: '' (take 511 m) \<Longrightarrow> tag_neutral s (debug_printf m t)"
    and "tag_neutral s (show_status_message m t)"
    and "tag_neutral s (show_ready_screen t)"
    and "tag_neutral s (show_menu t)"
    and "tag_neutral s (led_set on t)"
    and "tag_neutral s (buzzer_tone f d t)"
    and "tag_neutral s (snd (storage_save key data len t))"
    and "tag_neutral s (snd (touch_read t))"
    and "tag_neutral s (t\<lparr>last_touch_time := x\<rparr>)"
    and "tag_neutral s (led_blink n d' t)"
    and "tag_neutral s (system_delay ms t)"
  by (rule tag_neutral_trans [OF assms], rule tag_neutral_step tag_neutral_led_blink
        tag_neutral_system_delay; assumption?)+

lemma tag_neutral_if:
  "tag_neutral s a \<Longrightarrow> tag_neutral s b \<Longrightarrow> tag_neutral s (if c then a else b)"
  by simp

lemma tag_neutral_buzzer_success: "tag_neutral s t \<Longrightarrow> tag_neutral s (buzzer_success t)"
  unfolding buzzer_success_def Let_def
  by (intro tag_neutral_then)

lemma tag_neutral_rainbow_from: "tag_neutral s t \<Longrightarrow> tag_neutral s (rainbow_from i t)"
proof (induction i t rule: rainbow_from.induct)
  case (1 i t)
  show ?case
  proof (cases "i < 10")
    case True
    let ?t = "system_delay 50 (led_set False (system_delay 100
                (buzzer_tone (of_int (500 + i * 100)) 100 (led_set True t))))"
    have "tag_neutral s ?t"
      using "1.prems" by (intro tag_neutral_then)
    then have "tag_neutral s (rainbow_from (i + 1) ?t)"
      using "1.IH" [OF True] by (simp only: Let_def)
    moreover have "rainbow_from i t = rainbow_from (i + 1) ?t"
      using True by (subst rainbow_from.simps) (simp only: Let_def if_True)
    ultimately show ?thesis by simp
  next
    case False
    then show ?thesis using "1.prems" by (simp add: rainbow_from.simps [of i t])
  qed
qed

lemma tag_neutral_pulse_from: "tag_neutral s t \<Longrightarrow> tag_neutral s (pulse_from i t)"
proof (induction i t rule: pulse_from.induct)
  case (1 i t)
  show ?case
  proof (cases "i < 5")
    case True
    let ?t = "system_delay 50 (led_set False (system_delay 50 (led_set True t)))"
    have "tag_neutral s ?t"
      using "1.prems" by (intro tag_neutral_then)
    then have "tag_neutral s (pulse_from (i + 1) ?t)"
      using "1.IH" [OF True] by (simp only: Let_def)
    moreover have "pulse_from i t = pulse_from (i + 1) ?t"
      using True by (subst pulse_from.simps) (simp only: Let_def if_True)
    ultimately show ?thesis by simp
  next
    case False
    then show ?thesis using "1.prems" by (simp add: pulse_from.simps [of i t])
  qed
qed

lemmas tag_neutral_rules =
  tag_neutral_then tag_neutral_if tag_neutral_buzzer_success tag_neutral_rainbow_from
  tag_neutral_pulse_from

lemma tag_neutral_save_moment: "tag_neutral s t \<Longrightarrow> tag_neutral s (execute_save_moment u t)"
  unfolding execute_save_moment_def Let_def
  by (intro tag_neutral_rules; simp)

lemma tag_neutral_send_tip: "tag_neutral s t \<Longrightarrow> tag_neutral s (execute_send_tip u t)"
  unfolding execute_send_tip_def Let_def
  by (intro tag_neutral_rules; simp)

lemma tag_neutral_vote: "tag_neutral s t \<Longrightarrow> tag_neutral s (execute_vote u a t)"
  unfolding execute_vote_def Let_def
  by (intro tag_neutral_rules; simp)

lemma tag_neutral_increment_counter:
  "tag_neutral s t \<Longrightarrow> tag_neutral s (execute_increment_counter u t)"
  unfolding execute_increment_counter_def Let_def
  by (intro tag_neutral_rules; simp)

lemma tag_neutral_trigger_light: "tag_neutral s t \<Longrightarrow> tag_neutral s (execute_trigger_light u t)"
  unfolding execute_trigger_light_def Let_def
  by (intro tag_neutral_rules; simp)

lemma tag_neutral_unlock_content: "tag_neutral s t \<Longrightarrow> tag_neutral s (execute_unlock_content u t)"
  unfolding execute_unlock_content_def Let_def
  by (intro tag_neutral_rules; simp)

lemma tag_neutral_ritual: "tag_neutral s t \<Longrightarrow> tag_neutral s (execute_ritual_behavior u t)"
  unfolding execute_ritual_behavior_def Let_def
  by (intro tag_neutral_rules tag_neutral_save_moment tag_neutral_send_tip tag_neutral_vote
        tag_neutral_increment_counter tag_neutral_trigger_light tag_neutral_unlock_content)

subsection \<open>The touch part of the loop leaves the tag part alone\<close>

lemma tag_neutral_display:
  assumes "tag_neutral s t"
  shows "tag_neutral s (display_clear t)" and "tag_neutral s (display_draw_text x y txt sz t)"
    and "tag_neutral s (display_update p t)"
  using assms
  by (cases "display_initialized t";
      simp add: display_on display_off tag_neutral_def activations_def quiet_on_def)+

lemma tag_neutral_long_press_wait:
  "tag_neutral s t \<Longrightarrow> tag_neutral s (snd (long_press_wait touch_start t))"
proof (induction touch_start t rule: long_press_wait.induct)
  case (1 touch_start t)
  show ?case
  proof (cases "system_millis t - touch_start < 1000")
    case False
    then show ?thesis using "1.prems" by (simp add: long_press_wait.simps [of touch_start t])
  next
    case True
    obtain r t' where r: "touch_read (system_delay 10 t) = (r, t')"
      by (cases "touch_read (system_delay 10 t)")
    then have t': "t' = snd (touch_read (system_delay 10 t))" by simp
    have n: "tag_neutral s t'"
      unfolding t' using "1.prems" by (intro tag_neutral_then)
    show ?thesis
    proof (cases r)
      case None
      from "1.IH"(1) [OF True r [symmetric] None n] True r None show ?thesis
        by (simp add: long_press_wait.simps [of touch_start t])
    next
      case (Some check_touch)
      show ?thesis
      proof (cases "touch_type check_touch = 2")
        case True
        with \<open>system_millis t - touch_start < 1000\<close> r Some n show ?thesis
          by (simp add: long_press_wait.simps [of touch_start t])
      next
        case False
        from "1.IH"(2) [OF True r [symmetric] Some False n] True r Some False show ?thesis
          by (simp add: long_press_wait.simps [of touch_start t])
      qed
    qed
  qed
qed

lemma tag_neutral_node_info_wait:
  "tag_neutral s t \<Longrightarrow> tag_neutral s (state_of (node_info_wait fuel t))"
proof (induction fuel arbitrary: t)
  case 0
  then show ?case by simp
next
  case (Suc fuel)
  obtain r t1 where r: "touch_read t = (r, t1)" by (cases "touch_read t")
  then have t1: "t1 = snd (touch_read t)" by simp
  have n1: "tag_neutral s t1"
    unfolding t1 using Suc.prems by (intro tag_neutral_then)
  then have n2: "tag_neutral s (system_delay 10 t1)"
    by (intro tag_neutral_then)
  from Suc.IH [OF n2] n1 r show ?case
    by (simp split: option.splits)
qed

lemma tag_neutral_handle_touch_menu:
  assumes "tag_neutral s t"
  shows "tag_neutral s (state_of (handle_touch_menu fuel x y t))"
proof -
  have ready: "tag_neutral s (show_ready_screen (system_delay ms (show_status_message m t)))" for m ms
    using assms by (intro tag_neutral_then)
  have exit: "tag_neutral s (show_ready_screen t)"
    using assms by (intro tag_neutral_then)
  have info: "tag_neutral s (state_of (case node_info_wait fuel w of
                 Waiting s \<Rightarrow> Waiting s | Returned s \<Rightarrow> Returned (show_ready_screen s)))"
    if "w = display_update True (display_draw_text 10 250 m6 1
          (display_draw_text 60 70 m5 1 (display_draw_text 10 70 m4 1
          (display_draw_text 40 50 m3 1 (display_draw_text 10 50 m2 1
          (display_draw_text 10 10 m1 2 (display_clear t)))))))" for w m1 m2 m3 m4 m5 m6
  proof -
    have "tag_neutral s w"
      unfolding that using assms by (intro tag_neutral_display)
    then have n: "tag_neutral s (state_of (node_info_wait fuel w))"
      by (rule tag_neutral_node_info_wait)
    show ?thesis
    proof (cases "node_info_wait fuel w")
      case (Waiting v)
      with n show ?thesis by simp
    next
      case (Returned v)
      with n have "tag_neutral s v" by simp
      then have "tag_neutral s (show_ready_screen v)" by (intro tag_neutral_then)
      with Returned show ?thesis by simp
    qed
  qed
  show ?thesis
    unfolding handle_touch_menu_def Let_def
    by (auto intro: ready exit info)
qed

lemma tag_neutral_menu_wait:
  "tag_neutral s t \<Longrightarrow> tag_neutral s (state_of (menu_wait fuel t))"
proof (induction fuel arbitrary: t)
  case 0
  then show ?case by simp
next
  case (Suc fuel)
  obtain r t1 where r: "touch_read t = (r, t1)" by (cases "touch_read t")
  then have t1: "t1 = snd (touch_read t)" by simp
  have n1: "tag_neutral s t1"
    unfolding t1 using Suc.prems by (intro tag_neutral_then)
  then have n2: "tag_neutral s (system_delay 10 t1)"
    by (intro tag_neutral_then)
  from Suc.IH [OF n2] tag_neutral_handle_touch_menu [OF n1] r show ?case
    by (simp split: option.splits)
qed

lemma tag_neutral_touch_check:
  assumes "tag_neutral s t"
  shows "tag_neutral s (state_of (touch_check fuel now t))"
proof -
  obtain r t1 where r: "touch_read t = (r, t1)" by (cases "touch_read t")
  then have t1: "t1 = snd (touch_read t)" by simp
  have n1: "tag_neutral s t1"
    unfolding t1 using assms by (intro tag_neutral_then)
  show ?thesis
  proof (cases "\<exists>touch. r = Some touch \<and> touch_type touch = 0 \<and> now - last_touch_time t1 > 500")
    case False
    with r have "touch_check fuel now t = Returned t1"
      by (auto simp: touch_check_def split: option.splits)
    with n1 show ?thesis by simp
  next
    case True
    then obtain touch where touch: "r = Some touch" "touch_type touch = 0"
      "now - last_touch_time t1 > 500" by blast
    let ?t2 = "debug_printf (''Touch at ('' @ fmt_u (unat (touch_x touch)) @ '', '' @
                 fmt_u (unat (touch_y touch)) @ '')'') (t1\<lparr>last_touch_time := now\<rparr>)"
    obtain still t3 where l: "long_press_wait now ?t2 = (still, t3)"
      by (cases "long_press_wait now ?t2")
    then have t3: "t3 = snd (long_press_wait now ?t2)" by simp
    have n2: "tag_neutral s ?t2"
      using n1 by (intro tag_neutral_then; simp)
    have n3: "tag_neutral s t3"
      unfolding t3 using n2 by (rule tag_neutral_long_press_wait)
    show ?thesis
    proof (cases still)
      case True
      with r touch l have "touch_check fuel now t = menu_wait fuel (show_menu t3)"
        by (simp add: touch_check_def Let_def)
      moreover have "tag_neutral s (show_menu t3)"
        using n3 by (intro tag_neutral_then)
      ultimately show ?thesis by (simp add: tag_neutral_menu_wait)
    next
      case False
      with r touch l have "touch_check fuel now t = Returned t3"
        by (simp add: touch_check_def Let_def)
      with n3 show ?thesis by simp
    qed
  qed
qed

section \<open>Tag acquisition\<close>

text \<open>
  How many of \<open>n\<close> calls of \<^verbatim>\<open>loop\<close> in a row run the tag check, that is, poll the reader.
  A call that does not return has run its tag check before it started to wait.
\<close>

fun polls :: "nat \<Rightarrow> nat \<Rightarrow> node \<Rightarrow> nat" where
  "polls fuel 0 s = 0"
| "polls fuel (Suc n) s =
     (if system_millis s - last_nfc_check s > 100 then 1 else 0) +
     (case loop fuel s of Waiting t \<Rightarrow> 0 | Returned t \<Rightarrow> polls fuel n t)"

text \<open>
  \<open>tag_shown U s\<close>: the reader is initialized, a tag with a nonempty uid that prints as
  \<open>U\<close> is at the front of its queue, and the host will not replace or remove it.
\<close>

definition tag_shown :: "string \<Rightarrow> node \<Rightarrow> bool" where
  "tag_shown U s \<longleftrightarrow> nfc_initialized s \<and> quiet_on is_tag_event s \<and>
     (\<exists>tag rest. nfc_queue s = tag # rest \<and> tag_uid_length tag \<noteq> 0 \<and>
        uid_to_string (take (unat (tag_uid_length tag)) (tag_uid tag)) (tag_uid_length tag) = U)"

lemma quiet_on_fw_update [simp]:
  "quiet_on B (s\<lparr>last_nfc_check := a\<rparr>) = quiet_on B s"
  "quiet_on B (s\<lparr>last_uid := b\<rparr>) = quiet_on B s"
  "quiet_on B (s\<lparr>last_touch_time := c\<rparr>) = quiet_on B s"
  by (simp_all add: quiet_on_def)

lemma tag_shown_neutral: "tag_shown U s \<Longrightarrow> tag_neutral s t \<Longrightarrow> tag_shown U t"
  by (auto simp: tag_shown_def tag_neutral_def)

lemma nfc_check_seen:
  "tag_shown U s \<Longrightarrow> last_uid s = U \<Longrightarrow> nfc_check now s = s\<lparr>last_nfc_check := now\<rparr>"
  by (auto simp: tag_shown_def nfc_check_def nfc_tag_present_def nfc_get_uid_def Let_def uint_0_iff)

lemma nfc_check_new:
  "tag_shown U s \<Longrightarrow> last_uid s \<noteq> U \<Longrightarrow>
   nfc_check now s = execute_ritual_behavior U
     (debug_printf (''NFC tag detected: '' @ U) (s\<lparr>last_nfc_check := now, last_uid := U\<rparr>))"
  by (auto simp: tag_shown_def nfc_check_def nfc_tag_present_def nfc_get_uid_def Let_def uint_0_iff
        word_neq_0_conv word_less_def)

lemma nfc_check_absent:
  "nfc_queue s = [] \<Longrightarrow> nfc_check now s = s\<lparr>last_nfc_check := now, last_uid := []\<rparr>"
  by (simp add: nfc_check_def nfc_tag_present_def Let_def)




lemma nfc_check_new_effect:
  assumes "tag_shown U s" and "last_uid s \<noteq> U"
  shows "tag_shown U (nfc_check now s) \<and> last_uid (nfc_check now s) = U \<and>
         activations (nfc_check now s) = activations s + 1"
proof -
  let ?d = "debug_printf (''NFC tag detected: '' @ U) (s\<lparr>last_nfc_check := now, last_uid := U\<rparr>)"
  have n: "tag_neutral ?d (nfc_check now s)"
    unfolding nfc_check_new [OF assms] by (rule tag_neutral_ritual [OF tag_neutral_refl])
  have d: "tag_shown U ?d" "last_uid ?d = U" "activations ?d = activations s + 1"
    using assms(1) by (simp_all add: tag_shown_def activations_def)
  from tag_shown_neutral [OF d(1) n] n d(2,3) show ?thesis
    by (simp add: tag_neutral_def)
qed

text \<open>After its tag part, a call of \<^verbatim>\<open>loop\<close> dispatches nothing, whether it returns or not.\<close>

lemma loop_tag_neutral:
  "tag_neutral
     (if system_millis s - last_nfc_check s > 100 then nfc_check (system_millis s) s else s)
     (state_of (loop fuel s))"
proof -
  let ?s1 = "if system_millis s - last_nfc_check s > 100 then nfc_check (system_millis s) s else s"
  have c: "tag_neutral ?s1 (state_of (touch_check fuel (system_millis s) ?s1))"
    by (rule tag_neutral_touch_check [OF tag_neutral_refl])
  show ?thesis
  proof (cases "touch_check fuel (system_millis s) ?s1")
    case (Waiting w)
    with c show ?thesis by (simp add: loop_def Let_def del: system_millis_eq)
  next
    case (Returned v)
    with c have "tag_neutral ?s1 v" by simp
    then have "tag_neutral ?s1 (system_delay 10 v)" by (intro tag_neutral_then)
    with Returned show ?thesis by (simp add: loop_def Let_def del: system_millis_eq)
  qed
qed

lemma loops_step:
  "state_of (loops fuel (Suc n) s) =
     (case loop fuel s of Waiting w \<Rightarrow> w | Returned s' \<Rightarrow> state_of (loops fuel n s'))"
  "polls fuel (Suc n) s =
     (if system_millis s - last_nfc_check s > 100 then 1 else 0) +
     (case loop fuel s of Waiting w \<Rightarrow> 0 | Returned s' \<Rightarrow> polls fuel n s')"
  by (simp_all split: outcome.splits)

lemma loops_tag_shown:
  assumes "tag_shown U s"
  shows "tag_shown U (state_of (loops fuel n s)) \<and>
         (if last_uid s = U
          then last_uid (state_of (loops fuel n s)) = U \<and>
               activations (state_of (loops fuel n s)) = activations s
          else if 0 < polls fuel n s
          then last_uid (state_of (loops fuel n s)) = U \<and>
               activations (state_of (loops fuel n s)) = activations s + 1
          else last_uid (state_of (loops fuel n s)) = last_uid s \<and>
               activations (state_of (loops fuel n s)) = activations s)"
  using assms
proof (induction n arbitrary: s)
  case 0
  then show ?case by simp
next
  case (Suc n)
  let ?p = "system_millis s - last_nfc_check s > 100"
  let ?s1 = "if ?p then nfc_check (system_millis s) s else s"
  let ?l = "state_of (loop fuel s)"
  have n: "tag_neutral ?s1 ?l" by (rule loop_tag_neutral)
  have s1: "tag_shown U ?s1 \<and>
      (if last_uid s = U then last_uid ?s1 = U \<and> activations ?s1 = activations s
       else if ?p then last_uid ?s1 = U \<and> activations ?s1 = activations s + 1
       else last_uid ?s1 = last_uid s \<and> activations ?s1 = activations s)"
  proof (cases ?p)
    case False
    then show ?thesis using Suc.prems by simp
  next
    case True
    show ?thesis
    proof (cases "last_uid s = U")
      case same: True
      have "tag_shown U (s\<lparr>last_nfc_check := system_millis s\<rparr>)"
        using Suc.prems by (simp add: tag_shown_def)
      with True same show ?thesis
        by (simp add: nfc_check_seen [OF Suc.prems same] activations_def del: system_millis_eq)
    next
      case False
      with True nfc_check_new_effect [OF Suc.prems False, of "system_millis s"] show ?thesis
        by (simp del: system_millis_eq)
    qed
  qed
  then have sh: "tag_shown U ?l" using n by (blast intro: tag_shown_neutral)
  have eq: "last_uid ?l = last_uid ?s1" "activations ?l = activations ?s1"
    using n by (simp_all add: tag_neutral_def)
  show ?case
  proof (cases "loop fuel s")
    case (Waiting w)
    with sh eq s1 show ?thesis
      by (simp del: system_millis_eq split: if_splits)
  next
    case (Returned s')
    with sh have "tag_shown U s'" by simp
    from Suc.IH [OF this] s1 eq Returned show ?thesis
      by (simp del: system_millis_eq split: if_splits)
  qed
qed

lemma loops_tag_absent:
  assumes "nfc_queue s = []" and "quiet_on is_tag_event s"
  shows "nfc_queue (state_of (loops fuel n s)) = [] \<and>
         quiet_on is_tag_event (state_of (loops fuel n s)) \<and>
         nfc_initialized (state_of (loops fuel n s)) = nfc_initialized s \<and>
         activations (state_of (loops fuel n s)) = activations s \<and>
         last_uid (state_of (loops fuel n s)) = (if 0 < polls fuel n s then [] else last_uid s)"
  using assms
proof (induction n arbitrary: s)
  case 0
  then show ?case by simp
next
  case (Suc n)
  let ?p = "system_millis s - last_nfc_check s > 100"
  let ?s1 = "if ?p then nfc_check (system_millis s) s else s"
  let ?l = "state_of (loop fuel s)"
  have n: "tag_neutral ?s1 ?l" by (rule loop_tag_neutral)
  have s1: "nfc_queue ?s1 = [] \<and> quiet_on is_tag_event ?s1 \<and>
      nfc_initialized ?s1 = nfc_initialized s \<and> activations ?s1 = activations s \<and>
      last_uid ?s1 = (if ?p then [] else last_uid s)"
    using Suc.prems
    by (simp add: nfc_check_absent activations_def del: system_millis_eq)
  with n have l: "nfc_queue ?l = []" "quiet_on is_tag_event ?l"
    "nfc_initialized ?l = nfc_initialized s" "activations ?l = activations s"
    "last_uid ?l = (if ?p then [] else last_uid s)"
    by (simp_all add: tag_neutral_def)
  show ?case
  proof (cases "loop fuel s")
    case (Waiting w)
    with l show ?thesis
      by (simp del: system_millis_eq)
  next
    case (Returned s')
    with l have "nfc_queue s' = []" "quiet_on is_tag_event s'" by simp_all
    from Suc.IH [OF this] l Returned show ?thesis
      by (simp del: system_millis_eq)
  qed
qed


lemma length_uid_to_string_from: "length (uid_to_string_from uid n) = 2 * min n (length uid)"
  by (induction uid n rule: uid_to_string_from.induct) (simp_all add: fmt_02X_def)

lemma uid_length_byte:
  assumes "length uid \<le> 7"
  shows "unat (of_nat (length uid) :: u8) = length uid"
    and "(if (of_nat (length uid) :: u8) < 7 then of_nat (length uid) else 7) = (of_nat (length uid) :: u8)"
proof -
  show u: "unat (of_nat (length uid) :: u8) = length uid"
    using assms by (simp add: unat_of_nat)
  have "\<not> (of_nat (length uid) :: u8) < 7 \<Longrightarrow> (of_nat (length uid) :: u8) = 7"
    using assms u by (simp add: word_less_nat_alt word_eq_iff_unsigned [where ?'a = nat])
  then show "(if (of_nat (length uid) :: u8) < 7 then of_nat (length uid) else 7) = (of_nat (length uid) :: u8)"
    by auto
qed

lemma wasm_nfc_tag_keeps:
  "nfc_initialized (wasm_nfc_tag uid ul ndef nl s) = nfc_initialized s"
  "last_uid (wasm_nfc_tag uid ul ndef nl s) = last_uid s"
  "activations (wasm_nfc_tag uid ul ndef nl s) = activations s"
  "quiet_on B (wasm_nfc_tag uid ul ndef nl s) = quiet_on B s"
  "nfc_initialized (wasm_nfc_tag_removed s) = nfc_initialized s"
  "last_uid (wasm_nfc_tag_removed s) = last_uid s"
  "activations (wasm_nfc_tag_removed s) = activations s"
  "quiet_on B (wasm_nfc_tag_removed s) = quiet_on B s"
  "nfc_queue (wasm_nfc_tag_removed s) = []"
  by (simp_all add: wasm_nfc_tag_def wasm_nfc_tag_removed_def Let_def activations_def quiet_on_def
        clear_queue_empty)

lemma tag_shown_wasm_nfc_tag:
  assumes "nfc_initialized s" and "quiet_on is_tag_event s" and "0 < length uid" and "length uid \<le> 7"
  shows "tag_shown (uid_to_string uid (of_nat (length uid)))
           (wasm_nfc_tag uid (of_nat (length uid)) ndef nl s)"
    and "uid_to_string uid (of_nat (length uid)) \<noteq> []"
proof -
  note b = uid_length_byte [OF assms(4)]
  have z: "(of_nat (length uid) :: u8) \<noteq> 0"
    using b(1) assms(3) by (metis less_numeral_extra(3) unat_0)
  show "tag_shown (uid_to_string uid (of_nat (length uid)))
           (wasm_nfc_tag uid (of_nat (length uid)) ndef nl s)"
    using assms(1,2) z
    by (simp add: tag_shown_def wasm_nfc_tag_keeps)
       (simp add: wasm_nfc_tag_def Let_def clear_queue_empty b)
  have "length (uid_to_string uid (of_nat (length uid))) = 2 * length uid"
    by (simp add: uid_to_string_def length_uid_to_string_from b)
  with assms(3) show "uid_to_string uid (of_nat (length uid)) \<noteq> []" by auto
qed


text \<open>One presence interval, one absence interval, and a tag with an empty uid.\<close>

lemma presence_interval:
  assumes "nfc_initialized s" and "quiet_on is_tag_event s"
    and "0 < length uid" and "length uid \<le> 7"
  shows "nfc_initialized (state_of (loops f n (wasm_nfc_tag uid (of_nat (length uid)) ndef nl s)))"
    and "quiet_on is_tag_event (state_of (loops f n (wasm_nfc_tag uid (of_nat (length uid)) ndef nl s)))"
    and "activations (state_of (loops f n (wasm_nfc_tag uid (of_nat (length uid)) ndef nl s))) =
           activations s +
           (if last_uid s \<noteq> uid_to_string uid (of_nat (length uid)) \<and>
               0 < polls f n (wasm_nfc_tag uid (of_nat (length uid)) ndef nl s) then 1 else 0)"
    and "last_uid (state_of (loops f n (wasm_nfc_tag uid (of_nat (length uid)) ndef nl s))) =
           (if last_uid s = uid_to_string uid (of_nat (length uid)) \<or>
               0 < polls f n (wasm_nfc_tag uid (of_nat (length uid)) ndef nl s)
            then uid_to_string uid (of_nat (length uid)) else last_uid s)"
    and "nfc_tag_present (state_of (loops f n (wasm_nfc_tag uid (of_nat (length uid)) ndef nl s)))"
proof -
  let ?U = "uid_to_string uid (of_nat (length uid))"
  let ?p = "wasm_nfc_tag uid (of_nat (length uid)) ndef nl s"
  have sh: "tag_shown ?U ?p"
    using tag_shown_wasm_nfc_tag [OF assms] by blast
  note r = loops_tag_shown [OF sh, of f n]
  from r show "nfc_initialized (state_of (loops f n ?p))"
    and "quiet_on is_tag_event (state_of (loops f n ?p))"
    by (simp_all add: tag_shown_def)
  from r show "activations (state_of (loops f n ?p)) =
      activations s + (if last_uid s \<noteq> ?U \<and> 0 < polls f n ?p then 1 else 0)"
    by (simp add: wasm_nfc_tag_keeps split: if_splits)
  from r show "last_uid (state_of (loops f n ?p)) =
      (if last_uid s = ?U \<or> 0 < polls f n ?p then ?U else last_uid s)"
    by (simp add: wasm_nfc_tag_keeps split: if_splits)
  from r show "nfc_tag_present (state_of (loops f n ?p))"
    by (auto simp: tag_shown_def nfc_tag_present_def)
qed

lemma absence_interval:
  assumes "quiet_on is_tag_event s"
  shows "nfc_initialized (state_of (loops f n (wasm_nfc_tag_removed s))) = nfc_initialized s"
    and "quiet_on is_tag_event (state_of (loops f n (wasm_nfc_tag_removed s)))"
    and "activations (state_of (loops f n (wasm_nfc_tag_removed s))) = activations s"
    and "last_uid (state_of (loops f n (wasm_nfc_tag_removed s))) =
           (if 0 < polls f n (wasm_nfc_tag_removed s) then [] else last_uid s)"
proof -
  have "nfc_queue (wasm_nfc_tag_removed s) = []" "quiet_on is_tag_event (wasm_nfc_tag_removed s)"
    using assms by (simp_all add: wasm_nfc_tag_keeps)
  note r = loops_tag_absent [OF this, of f n]
  from r show "nfc_initialized (state_of (loops f n (wasm_nfc_tag_removed s))) = nfc_initialized s"
    and "quiet_on is_tag_event (state_of (loops f n (wasm_nfc_tag_removed s)))"
    and "activations (state_of (loops f n (wasm_nfc_tag_removed s))) = activations s"
    and "last_uid (state_of (loops f n (wasm_nfc_tag_removed s))) =
           (if 0 < polls f n (wasm_nfc_tag_removed s) then [] else last_uid s)"
    by (simp_all add: wasm_nfc_tag_keeps)
qed



subsection \<open>Ritual dispatch leaves the touch queue alone\<close>

lemma touch_kept_refl: "touch_kept s s"
  by (simp add: touch_kept_def)

lemma touch_kept_trans: "touch_kept s t \<Longrightarrow> touch_kept t u \<Longrightarrow> touch_kept s u"
  by (auto simp: touch_kept_def)

lemma touch_kept_step:
  "touch_kept s (debug_printf m s)"
  "touch_kept s (show_status_message m s)"
  "touch_kept s (show_ready_screen s)"
  "touch_kept s (led_set on s)"
  "touch_kept s (buzzer_tone f d s)"
  "touch_kept s (snd (storage_save key data len s))"
  "touch_kept s (s\<lparr>last_nfc_check := a\<rparr>)"
  "touch_kept s (s\<lparr>last_uid := b\<rparr>)"
  by (simp_all add: touch_kept_def)

lemma touch_kept_led_blink: "touch_kept s (led_blink n d s)"
  by (simp add: touch_kept_def quiet_on_led_blink)

lemma touch_kept_system_delay: "touch_kept s (system_delay ms s)"
  using system_delay_quiet [of is_touch_event s ms]
  by (simp add: touch_kept_def)

lemma touch_kept_then:
  assumes "touch_kept s t"
  shows "touch_kept s (debug_printf m t)"
    and "touch_kept s (show_status_message m t)"
    and "touch_kept s (show_ready_screen t)"
    and "touch_kept s (led_set on t)"
    and "touch_kept s (buzzer_tone f d t)"
    and "touch_kept s (snd (storage_save key data len t))"
    and "touch_kept s (t\<lparr>last_nfc_check := a\<rparr>)"
    and "touch_kept s (t\<lparr>last_uid := b\<rparr>)"
    and "touch_kept s (led_blink n d' t)"
    and "touch_kept s (system_delay ms t)"
  by (rule touch_kept_trans [OF assms], rule touch_kept_step touch_kept_led_blink
        touch_kept_system_delay)+

lemma touch_kept_if:
  "touch_kept s a \<Longrightarrow> touch_kept s b \<Longrightarrow> touch_kept s (if c then a else b)"
  by simp

lemma touch_kept_buzzer_success: "touch_kept s t \<Longrightarrow> touch_kept s (buzzer_success t)"
  unfolding buzzer_success_def Let_def
  by (intro touch_kept_then)

lemma touch_kept_rainbow_from: "touch_kept s t \<Longrightarrow> touch_kept s (rainbow_from i t)"
proof (induction i t rule: rainbow_from.induct)
  case (1 i t)
  show ?case
  proof (cases "i < 10")
    case True
    let ?t = "system_delay 50 (led_set False (system_delay 100
                (buzzer_tone (of_int (500 + i * 100)) 100 (led_set True t))))"
    have "touch_kept s ?t"
      using "1.prems" by (intro touch_kept_then)
    then have "touch_kept s (rainbow_from (i + 1) ?t)"
      using "1.IH" [OF True] by (simp only: Let_def)
    moreover have "rainbow_from i t = rainbow_from (i + 1) ?t"
      using True by (subst rainbow_from.simps) (simp only: Let_def if_True)
    ultimately show ?thesis by simp
  next
    case False
    then show ?thesis using "1.prems" by (simp add: rainbow_from.simps [of i t])
  qed
qed

lemma touch_kept_pulse_from: "touch_kept s t \<Longrightarrow> touch_kept s (pulse_from i t)"
proof (induction i t rule: pulse_from.induct)
  case (1 i t)
  show ?case
  proof (cases "i < 5")
    case True
    let ?t = "system_delay 50 (led_set False (system_delay 50 (led_set True t)))"
    have "touch_kept s ?t"
      using "1.prems" by (intro touch_kept_then)
    then have "touch_kept s (pulse_from (i + 1) ?t)"
      using "1.IH" [OF True] by (simp only: Let_def)
    moreover have "pulse_from i t = pulse_from (i + 1) ?t"
      using True by (subst pulse_from.simps) (simp only: Let_def if_True)
    ultimately show ?thesis by simp
  next
    case False
    then show ?thesis using "1.prems" by (simp add: pulse_from.simps [of i t])
  qed
qed

lemmas touch_kept_rules =
  touch_kept_then touch_kept_if touch_kept_buzzer_success touch_kept_rainbow_from
  touch_kept_pulse_from

lemma touch_kept_ritual: "touch_kept s t \<Longrightarrow> touch_kept s (execute_ritual_behavior u t)"
  unfolding execute_ritual_behavior_def execute_save_moment_def execute_send_tip_def
    execute_vote_def execute_increment_counter_def execute_trigger_light_def
    execute_unlock_content_def Let_def
  by (intro touch_kept_rules)

lemma touch_kept_nfc_check: "touch_kept s (nfc_check now s)"
proof -
  have "touch_kept s (execute_ritual_behavior u (debug_printf m (s\<lparr>last_nfc_check := now, last_uid := b\<rparr>)))"
    for u m b
    by (intro touch_kept_ritual touch_kept_then touch_kept_refl)
  then show ?thesis
    by (simp add: nfc_check_def nfc_get_uid_def Let_def touch_kept_step touch_kept_def)
qed

text \<open>With nothing in the touch queue, a call of \<^verbatim>\<open>loop\<close> is the tag part and the final delay.\<close>

lemma loop_no_touch:
  assumes "touch_queue s = []" and "quiet_on is_touch_event s"
  shows "loop fuel s =
           Returned (system_delay 10
             (if system_millis s - last_nfc_check s > 100 then nfc_check (system_millis s) s else s))"
proof -
  let ?s1 = "if system_millis s - last_nfc_check s > 100 then nfc_check (system_millis s) s else s"
  have "touch_kept s ?s1"
    by (simp add: touch_kept_nfc_check touch_kept_refl del: system_millis_eq)
  with assms have "touch_queue ?s1 = []" by (simp add: touch_kept_def)
  then have "touch_check fuel (system_millis s) ?s1 = Returned ?s1"
    by (simp add: touch_check_def touch_read_def del: system_millis_eq)
  then show ?thesis
    by (simp add: loop_def Let_def del: system_millis_eq)
qed

lemma frame_behaviors:
  "fw_frame (execute_save_moment u s) = fw_frame s"
  "fw_frame (execute_send_tip u s) = fw_frame s"
  "fw_frame (execute_vote u a s) = fw_frame s"
  "fw_frame (execute_increment_counter u s) = fw_frame s"
  "fw_frame (execute_trigger_light u s) = fw_frame s"
  "fw_frame (execute_unlock_content u s) = fw_frame s"
  by (simp_all add: execute_save_moment_def execute_send_tip_def execute_vote_def
        execute_increment_counter_def execute_trigger_light_def execute_unlock_content_def
        Let_def fw_frame_def)

lemma frame_ritual: "fw_frame (execute_ritual_behavior u s) = fw_frame s"
proof -
  have "fw_frame (show_ready_screen (system_delay 1000 (show_status_message ''Unknown behavior'' s))) =
        fw_frame s"
    by (simp add: fw_frame_def)
  then show ?thesis
    by (simp add: execute_ritual_behavior_def Let_def frame_behaviors)
qed

lemmas ritual_frame [simp] = fw_frameD [OF frame_ritual]

lemma clock_save_moment: "clock (execute_save_moment u s) = clock s + 2250 - 10"
  by (simp add: execute_save_moment_def Let_def)



text \<open>A run of calls of \<^verbatim>\<open>loop\<close> with no touch input and none of them due for a tag check.\<close>

lemma loops_waiting:
  assumes "touch_queue s = []" and "quiet_on is_touch_event s"
    and "\<And>k. k < n \<Longrightarrow> \<not> (of_nat (clock s + 10 * k) - last_nfc_check s > (100 :: u64))"
  shows "\<exists>t. loops fuel n s = Returned t \<and> clock t = clock s + 10 * n \<and> fw_frame t = fw_frame s \<and>
           touch_queue t = [] \<and> quiet_on is_touch_event t \<and> tag_neutral s t \<and> polls fuel n s = 0"
  using assms
proof (induction n arbitrary: s)
  case 0
  then show ?case by (simp add: tag_neutral_refl)
next
  case (Suc n)
  let ?s' = "system_delay 10 s"
  have np: "\<not> system_millis s - last_nfc_check s > 100"
    using Suc.prems(3) [of 0] by simp
  have l: "loop fuel s = Returned ?s'"
    using loop_no_touch [OF Suc.prems(1,2), of fuel] np by (simp del: system_millis_eq)
  have q: "touch_queue ?s' = []" "quiet_on is_touch_event ?s'"
    using system_delay_quiet [of is_touch_event s 10] Suc.prems(1,2) by simp_all
  have w: "\<not> (of_nat (clock ?s' + 10 * k) - last_nfc_check ?s' > (100 :: u64))" if "k < n" for k
  proof -
    have c: "clock ?s' + 10 * k = clock s + 10 * Suc k" by simp
    have f: "last_nfc_check ?s' = last_nfc_check s" by simp
    from that have "Suc k < Suc n" by simp
    from Suc.prems(3) [OF this] show ?thesis unfolding c f .
  qed
  from Suc.IH [OF q w] obtain t where t: "loops fuel n ?s' = Returned t" "clock t = clock ?s' + 10 * n"
    "fw_frame t = fw_frame ?s'" "touch_queue t = []" "quiet_on is_touch_event t" "tag_neutral ?s' t"
    "polls fuel n ?s' = 0"
    by blast
  have "tag_neutral s t"
    using tag_neutral_trans [OF tag_neutral_system_delay t(6)] .
  moreover have "fw_frame t = fw_frame s" using t(3) by (simp add: fw_frame_def)
  ultimately show ?case using l t np by (simp del: system_millis_eq)
qed

lemma host_callback_keeps:
  "fw_frame (wasm_nfc_tag uid ul ndef nl s) = fw_frame s"
  "clock (wasm_nfc_tag uid ul ndef nl s) = clock s"
  "pending (wasm_nfc_tag uid ul ndef nl s) = pending s"
  "touch_queue (wasm_nfc_tag uid ul ndef nl s) = touch_queue s"
  "fw_frame (wasm_nfc_tag_removed s) = fw_frame s"
  "clock (wasm_nfc_tag_removed s) = clock s"
  "pending (wasm_nfc_tag_removed s) = pending s"
  "touch_queue (wasm_nfc_tag_removed s) = touch_queue s"
  by (simp_all add: wasm_nfc_tag_def wasm_nfc_tag_removed_def Let_def fw_frame_def)

lemmas wasm_nfc_tag_frame = fw_frameD [OF host_callback_keeps(1)]
lemmas wasm_nfc_tag_removed_frame = fw_frameD [OF host_callback_keeps(5)]

lemma nfc_check_fields:
  "last_nfc_check (nfc_check now s) = now"
  "current_ritual (nfc_check now s) = current_ritual s"
  by (simp_all add: nfc_check_def nfc_get_uid_def Let_def)

text \<open>A call of \<^verbatim>\<open>loop\<close> with no touch input: where it leaves the clock and the touch queue.\<close>

lemma loop_no_touch_fields:
  assumes "touch_queue s = []" and "quiet_on is_touch_event s"
  shows "\<exists>t. loop fuel s = Returned t \<and> touch_queue t = [] \<and> quiet_on is_touch_event t \<and>
           current_ritual t = current_ritual s \<and>
           (if system_millis s - last_nfc_check s > 100
            then last_nfc_check t = system_millis s \<and> clock t = clock (nfc_check (system_millis s) s) + 10
            else last_nfc_check t = last_nfc_check s \<and> clock t = clock s + 10)"
proof -
  let ?s1 = "if system_millis s - last_nfc_check s > 100 then nfc_check (system_millis s) s else s"
  have k: "touch_kept s ?s1"
    by (simp add: touch_kept_nfc_check touch_kept_refl del: system_millis_eq)
  with assms have q: "touch_queue ?s1 = []" "quiet_on is_touch_event ?s1"
    by (simp_all add: touch_kept_def del: system_millis_eq)
  from system_delay_quiet [of is_touch_event ?s1 10] q
  have "touch_queue (system_delay 10 ?s1) = []" "quiet_on is_touch_event (system_delay 10 ?s1)"
    by simp_all
  then show ?thesis
    using loop_no_touch [OF assms, of fuel]
    by (simp add: nfc_check_fields del: system_millis_eq)
qed

lemma clock_nfc_check_save_moment:
  assumes "tag_shown U s" and "last_uid s \<noteq> U"
    and "behavior (current_ritual s) = RITUAL_SAVE_MOMENT"
  shows "clock (nfc_check now s) = clock s + 2240"
  using assms(3)
  by (simp add: nfc_check_new [OF assms(1,2)] execute_ritual_behavior_def clock_save_moment)


text \<open>
  The default node, powered on at 1000 ms with no host input to come, when the tag AABB
  is presented before the first call of \<^verbatim>\<open>loop\<close>: that call polls, dispatches SaveMoment
  and returns at 3250 ms.
\<close>

lemma first_presentation:
  "loops 0 1 (wasm_nfc_tag [0xAA, 0xBB] 2 [] 0 (setup_fw (power_on 1000 [] []))) =
     Returned (state_of (loops 0 1 (wasm_nfc_tag [0xAA, 0xBB] 2 [] 0 (setup_fw (power_on 1000 [] [])))))"
  "0 < polls 0 1 (wasm_nfc_tag [0xAA, 0xBB] 2 [] 0 (setup_fw (power_on 1000 [] [])))"
  "touch_queue (state_of (loops 0 1 (wasm_nfc_tag [0xAA, 0xBB] 2 [] 0 (setup_fw (power_on 1000 [] []))))) = []"
  "quiet_on is_touch_event
     (state_of (loops 0 1 (wasm_nfc_tag [0xAA, 0xBB] 2 [] 0 (setup_fw (power_on 1000 [] [])))))"
  "last_nfc_check (state_of (loops 0 1 (wasm_nfc_tag [0xAA, 0xBB] 2 [] 0 (setup_fw (power_on 1000 [] []))))) =
     1000"
  "clock (state_of (loops 0 1 (wasm_nfc_tag [0xAA, 0xBB] 2 [] 0 (setup_fw (power_on 1000 [] []))))) = 3250"
proof -
  let ?uid = "[0xAA, 0xBB] :: u8 list"
  let ?U = "uid_to_string ?uid 2"
  let ?s0 = "setup_fw (power_on 1000 [] [])"
  let ?p1 = "wasm_nfc_tag ?uid 2 [] 0 ?s0"
  have two: "(of_nat (length ?uid) :: u8) = 2" by simp
  have u: "0 < length ?uid" "length ?uid \<le> 7" by simp_all
  have i: "nfc_initialized ?s0" "quiet_on is_tag_event ?s0" "last_uid ?s0 = []"
    by (simp_all add: setup_fw_power_on quiet_on_def)
  have p1: "touch_queue ?p1 = []" "quiet_on is_touch_event ?p1" "clock ?p1 = 1000"
    "last_nfc_check ?p1 = 0" "behavior (current_ritual ?p1) = RITUAL_SAVE_MOMENT"
    by (simp_all add: host_callback_keeps wasm_nfc_tag_frame setup_fw_power_on quiet_on_def)
  have sh1: "tag_shown ?U ?p1" and ne: "?U \<noteq> []"
    using tag_shown_wasm_nfc_tag [OF i(1,2) u, unfolded two] by blast+
  have new1: "last_uid ?p1 \<noteq> ?U"
    using ne i(3) by (simp add: wasm_nfc_tag_keeps)
  have m1: "system_millis ?p1 = 1000" by (simp add: p1)
  have d1: "system_millis ?p1 - last_nfc_check ?p1 > 100"
    by (simp add: p1)
  from loop_no_touch_fields [OF p1(1,2), of 0] d1 obtain t1
    where t1: "loop 0 ?p1 = Returned t1" "touch_queue t1 = []" "quiet_on is_touch_event t1"
      "last_nfc_check t1 = 1000" "clock t1 = 3250"
    by (auto simp: p1 m1 clock_nfc_check_save_moment [OF sh1 new1 p1(5)] simp del: system_millis_eq)
  have l1: "loops 0 1 ?p1 = Returned t1" using t1(1) by simp
  show "loops 0 1 ?p1 = Returned (state_of (loops 0 1 ?p1))" using l1 by simp
  show "0 < polls 0 1 ?p1" using d1 by (simp del: system_millis_eq)
  show "touch_queue (state_of (loops 0 1 ?p1)) = []" using l1 t1 by simp
  show "quiet_on is_touch_event (state_of (loops 0 1 ?p1))" using l1 t1 by simp
  show "last_nfc_check (state_of (loops 0 1 ?p1)) = 1000" using l1 t1 by simp
  show "clock (state_of (loops 0 1 ?p1)) = 3250" using l1 t1 by simp
qed



text \<open>
  Two more runs in which a presence interval of the tag AABB passes without a dispatch.
  In the first the node is powered on at 50 ms, the tag is there from the start and is
  removed after five calls of \<^verbatim>\<open>loop\<close>, none of which is due for a poll. In the second
  the tag is dispatched once, removed and presented again before the next poll, so that
  the poll finds the uid it remembers.
\<close>

theorem unpolled_presence_counterexample:
  "last_uid (setup_fw (power_on 50 [] [])) = [] \<and>
   polls 0 5 (wasm_nfc_tag [0xAA, 0xBB] 2 [] 0 (setup_fw (power_on 50 [] []))) = 0 \<and>
   loops 0 5 (wasm_nfc_tag [0xAA, 0xBB] 2 [] 0 (setup_fw (power_on 50 [] []))) =
     Returned (state_of (loops 0 5 (wasm_nfc_tag [0xAA, 0xBB] 2 [] 0 (setup_fw (power_on 50 [] []))))) \<and>
   nfc_tag_present (state_of (loops 0 5 (wasm_nfc_tag [0xAA, 0xBB] 2 [] 0 (setup_fw (power_on 50 [] []))))) \<and>
   activations (state_of (loops 0 5 (wasm_nfc_tag [0xAA, 0xBB] 2 [] 0 (setup_fw (power_on 50 [] []))))) =
     activations (setup_fw (power_on 50 [] [])) \<and>
   activations (state_of (loops 0 20 (wasm_nfc_tag_removed
       (state_of (loops 0 5 (wasm_nfc_tag [0xAA, 0xBB] 2 [] 0 (setup_fw (power_on 50 [] [])))))))) =
     activations (setup_fw (power_on 50 [] []))"
proof -
  let ?uid = "[0xAA, 0xBB] :: u8 list"
  let ?s0 = "setup_fw (power_on 50 [] [])"
  let ?p = "wasm_nfc_tag ?uid 2 [] 0 ?s0"
  have two: "(of_nat (length ?uid) :: u8) = 2" by simp
  have u: "0 < length ?uid" "length ?uid \<le> 7" by simp_all
  have i: "nfc_initialized ?s0" "quiet_on is_tag_event ?s0" "last_uid ?s0 = []"
    by (simp_all add: setup_fw_power_on quiet_on_def)
  have p: "touch_queue ?p = []" "quiet_on is_touch_event ?p" "clock ?p = 50" "last_nfc_check ?p = 0"
    by (simp_all add: host_callback_keeps wasm_nfc_tag_frame setup_fw_power_on quiet_on_def)
  have w: "\<not> (of_nat (clock ?p + 10 * k) - last_nfc_check ?p > (100 :: u64))" if "k < 5" for k
  proof -
    have e: "(of_nat (clock ?p + 10 * k) - last_nfc_check ?p :: u64) = of_nat (50 + 10 * k)"
      by (simp add: p)
    have "unat (of_nat (50 + 10 * k) :: u64) = (50 + 10 * k) mod 2 ^ 64"
      by (simp only: unat_of_nat) simp
    also have "\<dots> = 50 + 10 * k" using that by simp
    finally have "unat (of_nat (50 + 10 * k) :: u64) \<le> unat (100 :: u64)"
      using that by simp
    then have b: "(of_nat (50 + 10 * k) :: u64) \<le> 100" by (simp only: word_le_nat_alt)
    show ?thesis unfolding e not_less by (rule b)
  qed
  from loops_waiting [where n = 5 and fuel = 0, OF p(1,2) w] obtain t
    where t: "loops 0 5 ?p = Returned t" "polls 0 5 ?p = 0"
    by blast
  note r = presence_interval [OF i(1,2) u, of 0 5 "[]" 0, unfolded two]
  have a: "activations t = activations ?s0" "quiet_on is_tag_event t" "nfc_tag_present t"
    using r t by simp_all
  from absence_interval(3) [OF a(2), of 0 20] a(1)
  have "activations (state_of (loops 0 20 (wasm_nfc_tag_removed t))) = activations ?s0"
    by simp
  with a t i(3) show ?thesis by simp
qed

theorem remembered_uid_counterexample:
  "0 < polls 0 1 (wasm_nfc_tag [0xAA, 0xBB] 2 [] 0 (setup_fw (power_on 1000 [] []))) \<and>
   loops 0 1 (wasm_nfc_tag [0xAA, 0xBB] 2 [] 0 (setup_fw (power_on 1000 [] []))) =
     Returned (state_of (loops 0 1 (wasm_nfc_tag [0xAA, 0xBB] 2 [] 0 (setup_fw (power_on 1000 [] []))))) \<and>
   activations (state_of (loops 0 1 (wasm_nfc_tag [0xAA, 0xBB] 2 [] 0 (setup_fw (power_on 1000 [] []))))) =
     activations (setup_fw (power_on 1000 [] [])) + 1 \<and>
   0 < polls 0 1 (wasm_nfc_tag [0xAA, 0xBB] 2 [] 0 (wasm_nfc_tag_removed
       (state_of (loops 0 1 (wasm_nfc_tag [0xAA, 0xBB] 2 [] 0 (setup_fw (power_on 1000 [] []))))))) \<and>
   nfc_tag_present (state_of (loops 0 1 (wasm_nfc_tag [0xAA, 0xBB] 2 [] 0 (wasm_nfc_tag_removed
       (state_of (loops 0 1 (wasm_nfc_tag [0xAA, 0xBB] 2 [] 0 (setup_fw (power_on 1000 [] []))))))))) \<and>
   activations (state_of (loops 0 1 (wasm_nfc_tag [0xAA, 0xBB] 2 [] 0 (wasm_nfc_tag_removed
       (state_of (loops 0 1 (wasm_nfc_tag [0xAA, 0xBB] 2 [] 0 (setup_fw (power_on 1000 [] []))))))))) =
     activations (setup_fw (power_on 1000 [] [])) + 1"
proof -
  let ?uid = "[0xAA, 0xBB] :: u8 list"
  let ?U = "uid_to_string ?uid 2"
  let ?s0 = "setup_fw (power_on 1000 [] [])"
  let ?p1 = "wasm_nfc_tag ?uid 2 [] 0 ?s0"
  define t1 where "t1 = state_of (loops 0 1 ?p1)"
  let ?r = "wasm_nfc_tag_removed t1"
  let ?p3 = "wasm_nfc_tag ?uid 2 [] 0 ?r"
  have two: "(of_nat (length ?uid) :: u8) = 2" by simp
  have u: "0 < length ?uid" "length ?uid \<le> 7" by simp_all
  have i: "nfc_initialized ?s0" "quiet_on is_tag_event ?s0" "last_uid ?s0 = []"
    by (simp_all add: setup_fw_power_on quiet_on_def)
  have ne: "?U \<noteq> []"
    using tag_shown_wasm_nfc_tag(2) [OF i(1,2) u, unfolded two] by simp
  note t1 = first_presentation [folded t1_def]
  note r1 = presence_interval [OF i(1,2) u, of 0 1 "[]" 0, unfolded two, folded t1_def]
  have a1: "activations t1 = activations ?s0 + 1" "last_uid t1 = ?U"
    "nfc_initialized t1" "quiet_on is_tag_event t1"
    using r1 t1(2) i(3) ne by simp_all
  have r: "nfc_initialized ?r" "quiet_on is_tag_event ?r" "last_uid ?r = ?U"
    "activations ?r = activations ?s0 + 1"
    using a1 by (simp_all add: wasm_nfc_tag_keeps)
  have p3: "clock ?p3 = 3250" "last_nfc_check ?p3 = 1000"
    using t1(5,6)
    by (simp_all add: host_callback_keeps wasm_nfc_tag_frame wasm_nfc_tag_removed_frame)
  have d3: "system_millis ?p3 - last_nfc_check ?p3 > 100"
    by (simp add: p3)
  have k3: "0 < polls 0 1 ?p3" using d3 by (simp del: system_millis_eq)
  note r3 = presence_interval [OF r(1,2) u, of 0 1 "[]" 0, unfolded two]
  have a3: "activations (state_of (loops 0 1 ?p3)) = activations ?s0 + 1"
    "nfc_tag_present (state_of (loops 0 1 ?p3))"
    using r3 r(3,4) by simp_all
  show ?thesis
    unfolding t1_def [symmetric]
    apply (intro conjI)
    apply (rule t1(2))
    apply (rule t1(1))
    apply (rule a1(1))
    apply (rule k3)
    apply (rule a3(2))
    apply (rule a3(1))
    done
qed

end
